theory Spec2Isabelle
  imports Complex_Main "HOL-Library.AList"
begin

section \<open>Normal pdf/cdf helpers\<close>

text \<open>
  The rating engine of \<^verbatim>\<open>trueskill_simple/core.py\<close> computes on Python floats. They are
  modelled as the real numbers: every arithmetic operation is exact, and the library
  functions \<^verbatim>\<open>math.exp\<close>, \<^verbatim>\<open>math.sqrt\<close> and \<^verbatim>\<open>math.erf\<close> are the mathematical ones.
\<close>

definition SQRT_2PI :: real where
  "SQRT_2PI = sqrt (2 * pi)"

definition SQRT2 :: real where
  "SQRT2 = sqrt 2"

definition phi :: "real \<Rightarrow> real" where
  "phi x = exp (- 0.5 * x * x) / SQRT_2PI"

text \<open>
  \<^verbatim>\<open>math.erf\<close> is the error function. It is given by its Maclaurin series
  \<open>2/\<surd>\<pi> \<cdot> \<Sum>k. (-1)^k x^(2k+1) / (k! (2k+1))\<close>; coefficient \<open>n + 1\<close> of the series is
  coefficient \<open>n\<close> of the series of \<open>2/\<surd>\<pi> \<cdot> exp (- x\<^sup>2)\<close> divided by \<open>n + 1\<close>.
\<close>

definition gauss_coeffs :: "nat \<Rightarrow> real" where
  "gauss_coeffs n = (if even n then (- 1) ^ (n div 2) / fact (n div 2) else 0)"

fun erf_coeffs :: "nat \<Rightarrow> real" where
  "erf_coeffs 0 = 0"
| "erf_coeffs (Suc n) = 2 / sqrt pi * gauss_coeffs n / real (Suc n)"

definition erf :: "real \<Rightarrow> real" where
  "erf x = (\<Sum>n. erf_coeffs n * x ^ n)"

definition Phi :: "real \<Rightarrow> real" where
  "Phi x = 0.5 * (1 + erf (x / SQRT2))"

definition v_truncate :: "real \<Rightarrow> real" where
  "v_truncate t =
     (let denom = Phi t in
      if denom < 1 / 10 ^ 12 then - t else phi t / denom)"

definition w_truncate :: "real \<Rightarrow> real" where
  "w_truncate t = (let v = v_truncate t in v * (v + t))"

definition v_draw :: "real \<Rightarrow> real \<Rightarrow> real" where
  "v_draw t eps' =
     (let a = - eps' - t; b = eps' - t; denom = Phi b - Phi a in
      if denom < 1 / 10 ^ 12 then 0 else (phi a - phi b) / denom)"

definition w_draw :: "real \<Rightarrow> real \<Rightarrow> real" where
  "w_draw t eps' =
     (let a = - eps' - t; b = eps' - t; denom = Phi b - Phi a in
      if denom < 1 / 10 ^ 12 then 0
      else let v = v_draw t eps' in v * v + (b * phi b - a * phi a) / denom)"

subsection \<open>Draw margin\<close>

text \<open>The \<^verbatim>\<open>for _ in range(80)\<close> loop of \<^verbatim>\<open>_draw_margin\<close>, on the pair \<open>(lo, hi)\<close>.\<close>

fun bisect :: "real \<Rightarrow> nat \<Rightarrow> real \<times> real \<Rightarrow> real \<times> real" where
  "bisect target 0 (lo, hi) = (lo, hi)"
| "bisect target (Suc n) (lo, hi) =
     (let mid = (lo + hi) / 2 in
      if Phi mid < target then bisect target n (mid, hi) else bisect target n (lo, mid))"

definition draw_margin :: "real \<Rightarrow> real \<Rightarrow> real" where
  "draw_margin beta' draw_probability' =
     (let target = (draw_probability' + 1) / 2;
          (lo, hi) = bisect target 80 (- 10, 10);
          z = (lo + hi) / 2
      in z * sqrt 2 * beta')"

section \<open>Players, environment and reports\<close>

record Player =
  name :: string
  mu :: real
  sigma :: real

text \<open>
  The fields of \<^verbatim>\<open>EPUpdateReport\<close>, prefixed with \<open>rep_\<close>. The two dictionaries are
  association lists in insertion order; \<^verbatim>\<open>d[k] = x\<close> is \<^const>\<open>AList.update\<close>, which
  overwrites the value of a key that is present and appends a new key at the end.
\<close>

record EPUpdateReport =
  rep_is_draw :: bool
  rep_eps :: real
  rep_c :: real
  rep_t :: real
  rep_v :: real
  rep_w :: real
  rep_team_winner :: "string list"
  rep_team_loser :: "string list"
  rep_delta_mu :: "(string \<times> real) list"
  rep_new_sigma :: "(string \<times> real) list"

record TrueSkillEnv =
  mu0 :: real
  sigma0 :: real
  beta :: real
  tau :: real
  draw_probability :: real
  trust :: real
  eps :: real

text \<open>\<^verbatim>\<open>TrueSkillEnv.__init__\<close>, and the environment of its default arguments.\<close>

definition init :: "real \<Rightarrow> real \<Rightarrow> real \<Rightarrow> real \<Rightarrow> real \<Rightarrow> real \<Rightarrow> TrueSkillEnv" where
  "init m s b ta dp tr =
     \<lparr>mu0 = m, sigma0 = s, beta = b, tau = ta, draw_probability = dp, trust = tr,
      eps = draw_margin b dp\<rparr>"

definition default_env :: TrueSkillEnv where
  "default_env = init 25 (25 / 3) (25 / 6) (25 / 300) 0.10 0"

definition make_player :: "TrueSkillEnv \<Rightarrow> string \<Rightarrow> Player" where
  "make_player env n = \<lparr>name = n, mu = mu0 env, sigma = sigma0 env\<rparr>"

text \<open>
  Players are Python objects that \<^verbatim>\<open>rate\<close> mutates in place, and the same object may occur
  several times in a submission. A team is a list of references into a store of players.
\<close>

type_synonym ref = nat
type_synonym heap = "ref \<Rightarrow> Player"

datatype error = ValueError | ZeroDivisionError

definition apply_drift :: "TrueSkillEnv \<Rightarrow> ref \<Rightarrow> heap \<Rightarrow> heap" where
  "apply_drift env p h =
     h(p := (h p)\<lparr>sigma := sqrt (sigma (h p) * sigma (h p) + tau env * tau env)\<rparr>)"

section \<open>The pairwise team update\<close>

definition team_mu :: "heap \<Rightarrow> ref list \<Rightarrow> real" where
  "team_mu h team = (\<Sum>p\<leftarrow>team. mu (h p))"

definition team_sig2 :: "heap \<Rightarrow> ref list \<Rightarrow> real" where
  "team_sig2 h team = (\<Sum>p\<leftarrow>team. sigma (h p) * sigma (h p))"

text \<open>One pass of a \<^verbatim>\<open>perf_noise += ...\<close> loop over a team.\<close>

definition perf_noise_loop :: "TrueSkillEnv \<Rightarrow> heap \<Rightarrow> ref list \<Rightarrow> real \<Rightarrow> real" where
  "perf_noise_loop env h team acc =
     fold (\<lambda>p a. a + (beta env * beta env + trust env * (sigma (h p) * sigma (h p)))) team acc"

definition perf_noise :: "TrueSkillEnv \<Rightarrow> heap \<Rightarrow> ref list \<Rightarrow> ref list \<Rightarrow> real" where
  "perf_noise env h team_winner team_loser =
     perf_noise_loop env h team_loser (perf_noise_loop env h team_winner 0)"

text \<open>The radicand of \<open>c\<close>; \<^verbatim>\<open>math.sqrt\<close> raises \<^verbatim>\<open>ValueError\<close> when it is negative.\<close>

definition c_squared :: "TrueSkillEnv \<Rightarrow> heap \<Rightarrow> ref list \<Rightarrow> ref list \<Rightarrow> real" where
  "c_squared env h team_winner team_loser =
     team_sig2 h team_winner + team_sig2 h team_loser + perf_noise env h team_winner team_loser"

text \<open>
  The body of the two update loops, on the store and the two dictionaries. The loops differ
  in the sign of the mean shift only: \<open>winner\<close> is true in the first (\<^verbatim>\<open>p.mu += ...\<close>) and
  false in the second (\<^verbatim>\<open>p.mu -= ...\<close>).
\<close>

type_synonym loop_state = "heap \<times> (string \<times> real) list \<times> (string \<times> real) list"

definition ep_step :: "bool \<Rightarrow> real \<Rightarrow> real \<Rightarrow> real \<Rightarrow> ref \<Rightarrow> loop_state \<Rightarrow> loop_state" where
  "ep_step winner c v w p st =
     (case st of (h, delta_mu, new_sigma) \<Rightarrow>
        let sigma2 = sigma (h p) * sigma (h p);
            old_mu = mu (h p);
            mu' = (if winner then old_mu + (sigma2 / c) * v else old_mu - (sigma2 / c) * v);
            sigma' = sqrt (max (1 / 10 ^ 9) (sigma2 * (1 - (sigma2 / (c * c)) * w)))
        in (h(p := (h p)\<lparr>mu := mu', sigma := sigma'\<rparr>),
            AList.update (name (h p)) (mu' - old_mu) delta_mu,
            AList.update (name (h p)) sigma' new_sigma))"

definition rate_two_teams ::
  "TrueSkillEnv \<Rightarrow> ref list \<Rightarrow> ref list \<Rightarrow> bool \<Rightarrow> bool \<Rightarrow> heap
     \<Rightarrow> (error + EPUpdateReport option) \<times> heap" where
  "rate_two_teams env team_winner team_loser is_draw collect h =
     (let mu_w = team_mu h team_winner;
          mu_l = team_mu h team_loser;
          c2 = c_squared env h team_winner team_loser
      in if c2 < 0 then (Inl ValueError, h)
         else let c = sqrt c2
         in if c = 0 then (Inl ZeroDivisionError, h)
         else let t = (mu_w - mu_l) / c;
                  v = (if is_draw then v_draw t (eps env / c) else v_truncate t);
                  w = (if is_draw then w_draw t (eps env / c) else w_truncate t);
                  st1 = fold (ep_step True c v w) team_winner (h, [], []);
                  st2 = fold (ep_step False c v w) team_loser st1
         in case st2 of (h', delta_mu, new_sigma) \<Rightarrow>
              if \<not> collect then (Inr None, h')
              else (Inr (Some
                     \<lparr>rep_is_draw = is_draw, rep_eps = eps env, rep_c = c, rep_t = t,
                      rep_v = v, rep_w = w,
                      rep_team_winner = map (\<lambda>p. name (h' p)) team_winner,
                      rep_team_loser = map (\<lambda>p. name (h' p)) team_loser,
                      rep_delta_mu = delta_mu, rep_new_sigma = new_sigma\<rparr>), h'))"

text \<open>
  Names for the values of the locals \<open>c\<close>, \<open>t\<close>, \<open>v\<close> and \<open>w\<close> of a call of
  \<^verbatim>\<open>_rate_two_teams\<close>, and for the state after its two update loops.
\<close>

definition pair_c :: "TrueSkillEnv \<Rightarrow> heap \<Rightarrow> ref list \<Rightarrow> ref list \<Rightarrow> real" where
  "pair_c env h team_winner team_loser = sqrt (c_squared env h team_winner team_loser)"

definition pair_t :: "TrueSkillEnv \<Rightarrow> heap \<Rightarrow> ref list \<Rightarrow> ref list \<Rightarrow> real" where
  "pair_t env h team_winner team_loser =
     (team_mu h team_winner - team_mu h team_loser) / pair_c env h team_winner team_loser"

definition pair_v :: "TrueSkillEnv \<Rightarrow> heap \<Rightarrow> ref list \<Rightarrow> ref list \<Rightarrow> bool \<Rightarrow> real" where
  "pair_v env h team_winner team_loser is_draw =
     (if is_draw
      then v_draw (pair_t env h team_winner team_loser)
             (eps env / pair_c env h team_winner team_loser)
      else v_truncate (pair_t env h team_winner team_loser))"

definition pair_w :: "TrueSkillEnv \<Rightarrow> heap \<Rightarrow> ref list \<Rightarrow> ref list \<Rightarrow> bool \<Rightarrow> real" where
  "pair_w env h team_winner team_loser is_draw =
     (if is_draw
      then w_draw (pair_t env h team_winner team_loser)
             (eps env / pair_c env h team_winner team_loser)
      else w_truncate (pair_t env h team_winner team_loser))"

definition pair_loops ::
  "TrueSkillEnv \<Rightarrow> ref list \<Rightarrow> ref list \<Rightarrow> bool \<Rightarrow> heap \<Rightarrow> loop_state" where
  "pair_loops env team_winner team_loser is_draw h =
     fold (ep_step False (pair_c env h team_winner team_loser)
             (pair_v env h team_winner team_loser is_draw)
             (pair_w env h team_winner team_loser is_draw)) team_loser
       (fold (ep_step True (pair_c env h team_winner team_loser)
                (pair_v env h team_winner team_loser is_draw)
                (pair_w env h team_winner team_loser is_draw)) team_winner (h, [], []))"

section \<open>Rating a match\<close>

text \<open>The drift loop of \<^verbatim>\<open>rate\<close>: every occurrence of a player in every team, in order.\<close>

definition drift_all :: "TrueSkillEnv \<Rightarrow> ref list list \<Rightarrow> heap \<Rightarrow> heap" where
  "drift_all env teams h = fold (\<lambda>team h'. fold (apply_drift env) team h') teams h"

text \<open>
  \<^verbatim>\<open>sorted(range(len(teams)), key=lambda i: ranks[i])\<close>: Python's sort is stable, and so is
  \<^const>\<open>sort_key\<close>.
\<close>

definition rank_order :: "int list \<Rightarrow> nat list" where
  "rank_order ranks = sort_key (\<lambda>i. ranks ! i) [0..<length ranks]"

text \<open>
  Iteration \<open>i\<close> of the free-for-all loop. The first component of the loop state is the list
  \<^verbatim>\<open>reports\<close>, or the exception that an earlier iteration raised.
\<close>

definition ffa_step ::
  "TrueSkillEnv \<Rightarrow> ref list list \<Rightarrow> int list \<Rightarrow> bool \<Rightarrow> nat list \<Rightarrow> nat
     \<Rightarrow> (error + EPUpdateReport list) \<times> heap \<Rightarrow> (error + EPUpdateReport list) \<times> heap" where
  "ffa_step env teams ranks return_report order i st =
     (case st of
        (Inl e, h) \<Rightarrow> (Inl e, h)
      | (Inr reports, h) \<Rightarrow>
          let a = order ! i; b = order ! (i + 1);
              ra = ranks ! a; rb = ranks ! b
          in (case rate_two_teams env (teams ! a) (teams ! b) (ra = rb) return_report h of
                (Inl e, h') \<Rightarrow> (Inl e, h')
              | (Inr None, h') \<Rightarrow> (Inr reports, h')
              | (Inr (Some rep), h') \<Rightarrow> (Inr (reports @ [rep]), h')))"

definition rate ::
  "TrueSkillEnv \<Rightarrow> ref list list \<Rightarrow> int list \<Rightarrow> bool \<Rightarrow> heap
     \<Rightarrow> (error + EPUpdateReport list option) \<times> heap" where
  "rate env teams ranks return_report h =
     (if length teams \<noteq> length ranks then (Inl ValueError, h)
      else if length teams < 2 then (Inl ValueError, h)
      else let h1 = drift_all env teams h in
        if length teams > 2 then
          (let order = rank_order ranks in
           case fold (ffa_step env teams ranks return_report order)
                  [0..<length order - 1] (Inr [], h1) of
             (Inl e, h') \<Rightarrow> (Inl e, h')
           | (Inr reports, h') \<Rightarrow> (Inr (if return_report then Some reports else None), h'))
        else
          (let is_draw = (ranks ! 0 = ranks ! 1) in
           if is_draw then
             (case rate_two_teams env (teams ! 0) (teams ! 1) True return_report h1 of
                (Inl e, h') \<Rightarrow> (Inl e, h')
              | (Inr rep, h') \<Rightarrow>
                  (Inr (case rep of Some r \<Rightarrow> if return_report then Some [r] else None
                                  | None \<Rightarrow> None), h'))
           else
             (let winner_first = (ranks ! 0 < ranks ! 1) in
              case (if winner_first
                    then rate_two_teams env (teams ! 0) (teams ! 1) False return_report h1
                    else rate_two_teams env (teams ! 1) (teams ! 0) False return_report h1) of
                (Inl e, h') \<Rightarrow> (Inl e, h')
              | (Inr rep, h') \<Rightarrow>
                  (Inr (case rep of Some r \<Rightarrow> if return_report then Some [r] else None
                                  | None \<Rightarrow> None), h'))))"

section \<open>A session of calls on one environment\<close>

text \<open>
  The methods receive the environment as the mutable object \<^verbatim>\<open>self\<close>. A session threads it
  through a sequence of calls together with the store; \<^verbatim>\<open>make_player\<close> returns a new object,
  which the session places at the next free reference.
\<close>

record session =
  self_env :: TrueSkillEnv
  store :: heap
  next_ref :: ref

datatype call = MakePlayer string | Rate "ref list list" "int list" bool

fun exec :: "call \<Rightarrow> session \<Rightarrow> session" where
  "exec (MakePlayer n) s =
     s\<lparr>store := (store s)(next_ref s := make_player (self_env s) n),
       next_ref := Suc (next_ref s)\<rparr>"
| "exec (Rate teams ranks return_report) s =
     s\<lparr>store := snd (rate (self_env s) teams ranks return_report (store s))\<rparr>"

definition new_session :: "TrueSkillEnv \<Rightarrow> heap \<Rightarrow> session" where
  "new_session env h = \<lparr>self_env = env, store = h, next_ref = 0\<rparr>"

section \<open>The free-for-all decomposition of section 4.4 of the specification\<close>

text \<open>
  Step 3 of the algorithm in the words of the specification: the team indices are sorted
  ascending by rank, and for each adjacent pair \<open>(a, b)\<close> of the sorted order the pairwise
  update runs with \<open>is_draw = (rank[a] == rank[b])\<close> and \<open>a\<close> as the winner; the reports are
  collected in that order. A failing pairwise update ends the run.
\<close>

definition adjacent_pairs :: "nat list \<Rightarrow> (nat \<times> nat) list" where
  "adjacent_pairs order = zip order (tl order)"

fun spec_pairwise ::
  "TrueSkillEnv \<Rightarrow> ref list list \<Rightarrow> int list \<Rightarrow> bool \<Rightarrow> (nat \<times> nat) list \<Rightarrow> heap
     \<Rightarrow> (error + EPUpdateReport list) \<times> heap" where
  "spec_pairwise env teams ranks want_report [] h = (Inr [], h)"
| "spec_pairwise env teams ranks want_report ((a, b) # ps) h =
     (case rate_two_teams env (teams ! a) (teams ! b) (ranks ! a = ranks ! b) want_report h of
        (Inl e, h') \<Rightarrow> (Inl e, h')
      | (Inr rep, h') \<Rightarrow>
          (case spec_pairwise env teams ranks want_report ps h' of
             (Inl e, h'') \<Rightarrow> (Inl e, h'')
           | (Inr reps, h'') \<Rightarrow>
               (Inr ((case rep of None \<Rightarrow> [] | Some r \<Rightarrow> [r]) @ reps), h'')))"

definition spec_rate_ffa ::
  "TrueSkillEnv \<Rightarrow> ref list list \<Rightarrow> int list \<Rightarrow> bool \<Rightarrow> heap
     \<Rightarrow> (error + EPUpdateReport list option) \<times> heap" where
  "spec_rate_ffa env teams ranks want_report h =
     (case spec_pairwise env teams ranks want_report (adjacent_pairs (rank_order ranks))
             (drift_all env teams h) of
        (Inl e, h') \<Rightarrow> (Inl e, h')
      | (Inr reps, h') \<Rightarrow> (Inr (if want_report then Some reps else None), h'))"

section \<open>The closed forms of section 4.1 of the specification\<close>

definition spec_v :: "real \<Rightarrow> real" where
  "spec_v t = (if Phi t \<ge> 1 / 10 ^ 12 then phi t / Phi t else - t)"

definition spec_w :: "real \<Rightarrow> real" where
  "spec_w t = spec_v t * (spec_v t + t)"

definition spec_v_draw :: "real \<Rightarrow> real \<Rightarrow> real" where
  "spec_v_draw t e =
     (if Phi (e - t) - Phi (- e - t) < 1 / 10 ^ 12 then 0
      else (phi (- e - t) - phi (e - t)) / (Phi (e - t) - Phi (- e - t)))"

definition spec_w_draw :: "real \<Rightarrow> real \<Rightarrow> real" where
  "spec_w_draw t e =
     (if Phi (e - t) - Phi (- e - t) < 1 / 10 ^ 12 then 0
      else (spec_v_draw t e)\<^sup>2
         + ((e - t) * phi (e - t) - (- e - t) * phi (- e - t)) / (Phi (e - t) - Phi (- e - t)))"

section \<open>Antiderivatives of the powers of the sine\<close>

text \<open>
  Used to bound the error function: \<open>sin_int m\<close> is the antiderivative of \<open>sin\<^sup>m\<close> that
  vanishes at \<open>0\<close>, by the reduction formula; its value at \<open>\<pi>/2\<close> is the Wallis integral.
\<close>

fun sin_int :: "nat \<Rightarrow> real \<Rightarrow> real" where
  "sin_int 0 x = x"
| "sin_int (Suc 0) x = 1 - cos x"
| "sin_int (Suc (Suc m)) x =
     (real (Suc m) * sin_int m x - sin x ^ Suc m * cos x) / real (Suc (Suc m))"

section \<open>Basic properties of the update loops\<close>

lemma ep_step_unfold:
  "ep_step winner c v w p (h, dm, ns) =
     (h(p := (h p)\<lparr>mu := (if winner then mu (h p) + (sigma (h p) * sigma (h p) / c) * v
                              else mu (h p) - (sigma (h p) * sigma (h p) / c) * v),
                     sigma := sqrt (max (1 / 10 ^ 9)
                        (sigma (h p) * sigma (h p) * (1 - (sigma (h p) * sigma (h p) / (c * c)) * w)))\<rparr>),
      AList.update (name (h p))
        ((if winner then mu (h p) + (sigma (h p) * sigma (h p) / c) * v
          else mu (h p) - (sigma (h p) * sigma (h p) / c) * v) - mu (h p)) dm,
      AList.update (name (h p))
        (sqrt (max (1 / 10 ^ 9)
           (sigma (h p) * sigma (h p) * (1 - (sigma (h p) * sigma (h p) / (c * c)) * w)))) ns)"
  by (simp add: ep_step_def Let_def)

lemma rate_two_teams_eq:
  "rate_two_teams env ws ls d col h =
     (if c_squared env h ws ls < 0 then (Inl ValueError, h)
      else if c_squared env h ws ls = 0 then (Inl ZeroDivisionError, h)
      else (Inr (if col then Some
                   \<lparr>rep_is_draw = d, rep_eps = eps env, rep_c = pair_c env h ws ls,
                    rep_t = pair_t env h ws ls, rep_v = pair_v env h ws ls d,
                    rep_w = pair_w env h ws ls d,
                    rep_team_winner = map (\<lambda>p. name (fst (pair_loops env ws ls d h) p)) ws,
                    rep_team_loser = map (\<lambda>p. name (fst (pair_loops env ws ls d h) p)) ls,
                    rep_delta_mu = fst (snd (pair_loops env ws ls d h)),
                    rep_new_sigma = snd (snd (pair_loops env ws ls d h))\<rparr>
                 else None),
            fst (pair_loops env ws ls d h)))"
  by (simp add: rate_two_teams_def Let_def pair_c_def pair_t_def pair_v_def pair_w_def
      pair_loops_def split: prod.splits)

lemma rate_two_teams_heap:
  "snd (rate_two_teams env ws ls d col h) =
     (if c_squared env h ws ls \<le> 0 then h else fst (pair_loops env ws ls d h))"
  by (simp add: rate_two_teams_eq)

section \<open>Truncation moments\<close>

text \<open>
  C2: for every real \<open>t\<close> (and \<open>eps\<close>) the four truncation moments computed by the code are
  the closed forms of the specification, with its guards: \<open>v(t) = \<phi>(t)/\<Phi>(t)\<close> when
  \<open>\<Phi>(t) \<ge> 1e-12\<close> and \<open>-t\<close> otherwise, \<open>w(t) = v(t)\<cdot>(v(t)+t)\<close>, and the two draw
  moments with \<open>a = -eps-t\<close>, \<open>b = eps-t\<close>, each \<open>0\<close> when \<open>\<Phi>(b)-\<Phi>(a) < 1e-12\<close>.
\<close>

theorem truncation_moments_closed_forms:
  "v_truncate t = spec_v t \<and> w_truncate t = spec_w t \<and>
   v_draw t e = spec_v_draw t e \<and> w_draw t e = spec_w_draw t e"
  by (simp add: v_truncate_def w_truncate_def v_draw_def w_draw_def spec_v_def spec_w_def
      spec_v_draw_def spec_w_draw_def Let_def power2_eq_square not_less)

section \<open>Invalid submissions\<close>

text \<open>
  C4: \<^verbatim>\<open>rate\<close> fails with \<^verbatim>\<open>ValueError\<close> whenever the numbers of teams and of ranks differ or
  there are fewer than two teams. The failure comes before the drift loop and before any
  belief update: the store is returned as it was, so every player keeps its \<open>mu\<close> and
  \<open>sigma\<close>.
\<close>

theorem rate_invalid_argument:
  "length teams \<noteq> length ranks \<or> length teams < 2 \<Longrightarrow>
   rate env teams ranks return_report h = (Inl ValueError, h)"
  by (auto simp: rate_def)

theorem rate_invalid_argument_witness:
  "rate default_env [[0], [1]] [0] False (\<lambda>_. make_player default_env ''A'')
     = (Inl ValueError, \<lambda>_. make_player default_env ''A'') \<and>
   rate default_env [[0]] [0] True (\<lambda>_. make_player default_env ''A'')
     = (Inl ValueError, \<lambda>_. make_player default_env ''A'')"
proof
  show "rate default_env [[0], [1]] [0] False (\<lambda>_. make_player default_env ''A'')
     = (Inl ValueError, \<lambda>_. make_player default_env ''A'')"
    by (rule rate_invalid_argument) simp
  show "rate default_env [[0]] [0] True (\<lambda>_. make_player default_env ''A'')
     = (Inl ValueError, \<lambda>_. make_player default_env ''A'')"
    by (rule rate_invalid_argument) simp
qed

section \<open>The configuration is never modified\<close>

lemma exec_env: "self_env (exec c s) = self_env s"
  by (cases c) simp_all

lemma session_env: "self_env (fold exec calls s) = self_env s"
  by (induction calls arbitrary: s) (simp_all add: exec_env)

text \<open>
  C9: after any sequence of \<^verbatim>\<open>make_player\<close> and \<^verbatim>\<open>rate\<close> calls on an environment, the fields
  \<open>mu0\<close>, \<open>sigma0\<close>, \<open>beta\<close>, \<open>tau\<close>, \<open>draw_probability\<close>, \<open>trust\<close> and the derived \<open>eps\<close>
  have the values they were given at construction.
\<close>

theorem configuration_unchanged:
  "self_env (fold exec calls (new_session (init m s b ta dp tr) h)) = init m s b ta dp tr \<and>
   mu0 (self_env (fold exec calls (new_session (init m s b ta dp tr) h))) = m \<and>
   sigma0 (self_env (fold exec calls (new_session (init m s b ta dp tr) h))) = s \<and>
   beta (self_env (fold exec calls (new_session (init m s b ta dp tr) h))) = b \<and>
   tau (self_env (fold exec calls (new_session (init m s b ta dp tr) h))) = ta \<and>
   draw_probability (self_env (fold exec calls (new_session (init m s b ta dp tr) h))) = dp \<and>
   trust (self_env (fold exec calls (new_session (init m s b ta dp tr) h))) = tr \<and>
   eps (self_env (fold exec calls (new_session (init m s b ta dp tr) h))) = draw_margin b dp"
  by (simp add: session_env new_session_def init_def)

section \<open>The variance floor\<close>

lemma ep_step_floor:
  "q = p \<or> sqrt (1 / 10 ^ 9) \<le> sigma (fst st q) \<Longrightarrow>
   sqrt (1 / 10 ^ 9) \<le> sigma (fst (ep_step winner c v w p st) q)"
  by (cases st) (auto simp: ep_step_unfold)

lemma ep_loop_floor:
  "q \<in> set team \<or> sqrt (1 / 10 ^ 9) \<le> sigma (fst st q) \<Longrightarrow>
   sqrt (1 / 10 ^ 9) \<le> sigma (fst (fold (ep_step winner c v w) team st) q)"
proof (induction team arbitrary: st)
  case Nil
  then show ?case by simp
next
  case (Cons p team)
  show ?case
  proof (cases "q \<in> set team")
    case True
    then show ?thesis using Cons.IH by simp
  next
    case False
    with Cons.prems have "q = p \<or> sqrt (1 / 10 ^ 9) \<le> sigma (fst st q)" by auto
    then have "sqrt (1 / 10 ^ 9) \<le> sigma (fst (ep_step winner c v w p st) q)"
      by (rule ep_step_floor)
    then show ?thesis using Cons.IH by simp
  qed
qed

lemma rate_two_teams_floor:
  assumes "rate_two_teams env ws ls d col h = (Inr rep, h')" and "p \<in> set ws \<union> set ls"
  shows "sqrt (1 / 10 ^ 9) \<le> sigma (h' p)"
proof -
  have h': "h' = fst (pair_loops env ws ls d h)"
    using assms(1) by (auto simp: rate_two_teams_eq split: if_splits)
  show ?thesis
    unfolding h' pair_loops_def
  proof (rule ep_loop_floor, cases "p \<in> set ls")
    case False
    with assms(2) have "p \<in> set ws" by simp
    then show "p \<in> set ls \<or> sqrt (1 / 10 ^ 9) \<le> sigma (fst (fold (ep_step True
        (pair_c env h ws ls) (pair_v env h ws ls d) (pair_w env h ws ls d)) ws (h, [], [])) p)"
      by (intro disjI2) (rule ep_loop_floor, rule disjI1)
  qed simp
qed

lemma perf_noise_loop_sum:
  "perf_noise_loop env h team acc =
     acc + (\<Sum>p\<leftarrow>team. beta env * beta env + trust env * (sigma (h p) * sigma (h p)))"
  unfolding perf_noise_loop_def
  by (induction team arbitrary: acc) (simp_all add: algebra_simps)

lemma c_squared_sum:
  "c_squared env h ws ls =
     (\<Sum>p\<leftarrow>ws @ ls. (1 + trust env) * (sigma (h p) * sigma (h p)) + beta env * beta env)"
  by (simp add: c_squared_def perf_noise_def perf_noise_loop_sum team_sig2_def
      sum_list_addf algebra_simps)

section \<open>The dictionaries of a report\<close>

lemma ep_step_name: "name (fst (ep_step winner c v w p st) q) = name (fst st q)"
  by (cases st) (simp add: ep_step_unfold)

lemma ep_loop_name: "name (fst (fold (ep_step winner c v w) team st) q) = name (fst st q)"
  by (induction team arbitrary: st) (simp_all add: ep_step_name)

lemma ep_step_other: "q \<noteq> p \<Longrightarrow> fst (ep_step winner c v w p st) q = fst st q"
  by (cases st) (simp add: ep_step_unfold)

lemma ep_loop_other:
  "q \<notin> set team \<Longrightarrow> fst (fold (ep_step winner c v w) team st) q = fst st q"
  by (induction team arbitrary: st) (simp_all add: ep_step_other)

lemma ep_step_keys:
  "distinct (map fst (fst (snd st))) \<and> distinct (map fst (snd (snd st))) \<Longrightarrow>
   distinct (map fst (fst (snd (ep_step winner c v w p st)))) \<and>
   distinct (map fst (snd (snd (ep_step winner c v w p st))))"
  by (cases st) (simp add: ep_step_unfold distinct_update)

lemma ep_loop_keys:
  "distinct (map fst (fst (snd st))) \<and> distinct (map fst (snd (snd st))) \<Longrightarrow>
   distinct (map fst (fst (snd (fold (ep_step winner c v w) team st)))) \<and>
   distinct (map fst (snd (snd (fold (ep_step winner c v w) team st))))"
proof (induction team arbitrary: st)
  case Nil
  then show ?case by simp
next
  case (Cons p team)
  from Cons.prems have "distinct (map fst (fst (snd (ep_step winner c v w p st)))) \<and>
      distinct (map fst (snd (snd (ep_step winner c v w p st))))"
    by (rule ep_step_keys)
  then show ?case using Cons.IH by simp
qed

lemma ep_step_entry_other:
  "name (fst st p) \<noteq> n \<Longrightarrow>
   map_of (fst (snd (ep_step winner c v w p st))) n = map_of (fst (snd st)) n \<and>
   map_of (snd (snd (ep_step winner c v w p st))) n = map_of (snd (snd st)) n"
  by (cases st) (simp add: ep_step_unfold update_conv')

lemma ep_loop_entry_other:
  "\<forall>q\<in>set team. name (fst st q) \<noteq> n \<Longrightarrow>
   map_of (fst (snd (fold (ep_step winner c v w) team st))) n = map_of (fst (snd st)) n \<and>
   map_of (snd (snd (fold (ep_step winner c v w) team st))) n = map_of (snd (snd st)) n"
proof (induction team arbitrary: st)
  case Nil
  then show ?case by simp
next
  case (Cons p team)
  have "\<forall>q\<in>set team. name (fst (ep_step winner c v w p st) q) \<noteq> n"
    using Cons.prems by (simp add: ep_step_name)
  from Cons.IH [OF this] show ?case
    using Cons.prems by (simp add: ep_step_entry_other)
qed

lemma ep_step_entry:
  "map_of (fst (snd (ep_step winner c v w p st))) (name (fst st p))
     = Some (mu (fst (ep_step winner c v w p st) p) - mu (fst st p)) \<and>
   map_of (snd (snd (ep_step winner c v w p st))) (name (fst st p))
     = Some (sigma (fst (ep_step winner c v w p st) p))"
  by (cases st) (simp add: ep_step_unfold update_conv')

text \<open>The value that the loop body writes for a player whose belief is \<open>x\<close>.\<close>

lemma ep_step_at:
  "fst (ep_step winner c v w p st) p =
     (fst st p)\<lparr>mu := (if winner then mu (fst st p) + sigma (fst st p) * sigma (fst st p) / c * v
                         else mu (fst st p) - sigma (fst st p) * sigma (fst st p) / c * v),
                sigma := sqrt (max (1 / 10 ^ 9) (sigma (fst st p) * sigma (fst st p) *
                           (1 - sigma (fst st p) * sigma (fst st p) / (c * c) * w)))\<rparr>"
  by (cases st) (simp add: ep_step_unfold)

lemma ep_loop_split:
  "fold (ep_step winner c v w) (xs @ p # ys) st =
     fold (ep_step winner c v w) ys (ep_step winner c v w p (fold (ep_step winner c v w) xs st))"
  by simp

lemma ep_loop_at:
  assumes "p \<notin> set xs" and "p \<notin> set ys"
  shows "fst (fold (ep_step winner c v w) (xs @ p # ys) st) p =
     (fst st p)\<lparr>mu := (if winner then mu (fst st p) + sigma (fst st p) * sigma (fst st p) / c * v
                         else mu (fst st p) - sigma (fst st p) * sigma (fst st p) / c * v),
                sigma := sqrt (max (1 / 10 ^ 9) (sigma (fst st p) * sigma (fst st p) *
                           (1 - sigma (fst st p) * sigma (fst st p) / (c * c) * w)))\<rparr>"
  using assms by (simp add: ep_loop_other ep_step_at)

lemma ep_loop_last_entry:
  assumes "p \<notin> set xs" and "p \<notin> set ys"
    and "\<forall>q\<in>set ys. name (fst st q) \<noteq> name (fst st p)"
  shows "map_of (fst (snd (fold (ep_step winner c v w) (xs @ p # ys) st))) (name (fst st p))
           = Some (mu (fst (fold (ep_step winner c v w) (xs @ p # ys) st) p) - mu (fst st p)) \<and>
         map_of (snd (snd (fold (ep_step winner c v w) (xs @ p # ys) st))) (name (fst st p))
           = Some (sigma (fst (fold (ep_step winner c v w) (xs @ p # ys) st) p))"
proof -
  let ?f = "ep_step winner c v w"
  let ?st1 = "fold ?f xs st"
  let ?st2 = "?f p ?st1"
  have p1: "fst ?st1 p = fst st p" using assms(1) by (rule ep_loop_other)
  have names: "\<forall>q\<in>set ys. name (fst ?st2 q) \<noteq> name (fst st p)"
    using assms(3) by (simp add: ep_step_name ep_loop_name)
  have keep: "fst (fold ?f ys ?st2) p = fst ?st2 p" using assms(2) by (rule ep_loop_other)
  have "map_of (fst (snd (fold ?f ys ?st2))) (name (fst st p))
          = Some (mu (fst ?st2 p) - mu (fst st p)) \<and>
        map_of (snd (snd (fold ?f ys ?st2))) (name (fst st p)) = Some (sigma (fst ?st2 p))"
    using ep_loop_entry_other [OF names] ep_step_entry [of winner c v w p ?st1] p1 by simp
  then show ?thesis using keep by simp
qed


lemma rate_two_teams_report:
  assumes "rate_two_teams env ws ls d True h = (Inr (Some rep), h')"
  shows "0 < c_squared env h ws ls" and "h' = fst (pair_loops env ws ls d h)"
    and "rep_delta_mu rep = fst (snd (pair_loops env ws ls d h))"
    and "rep_new_sigma rep = snd (snd (pair_loops env ws ls d h))"
    and "rep_c rep = pair_c env h ws ls" and "rep_v rep = pair_v env h ws ls d"
    and "rep_w rep = pair_w env h ws ls d" and "rep_t rep = pair_t env h ws ls"
    and "rep_is_draw rep = d" and "rep_eps rep = eps env"
    and "rep_team_winner rep = map (\<lambda>p. name (h p)) ws"
    and "rep_team_loser rep = map (\<lambda>p. name (h p)) ls"
  using assms
  by (auto simp: rate_two_teams_eq pair_loops_def ep_loop_name split: if_splits)

text \<open>
  C10: the dictionaries \<open>delta_mu\<close> and \<open>new_sigma\<close> of a report are keyed by player name.
  When a player \<open>pw\<close> of the winner team has the name of a player of the loser team, and
  \<open>pl\<close> is the last player of the loser team with that name, each dictionary has one entry
  for the name and it holds the change of \<open>mu\<close> and the new \<open>sigma\<close> of \<open>pl\<close>; the beliefs
  of both \<open>pw\<close> and \<open>pl\<close> were updated all the same. No player object occurs twice in the
  two teams.
\<close>

theorem report_name_collision:
  assumes "rate_two_teams env ws ls is_draw True h = (Inr (Some rep), h')"
    and "distinct (ws @ ls)" and "pw \<in> set ws" and "ls = xs @ pl # ys"
    and "name (h pw) = name (h pl)"
    and "\<forall>q\<in>set ys. name (h q) \<noteq> name (h pl)"
  shows "map_of (rep_delta_mu rep) (name (h pl)) = Some (mu (h' pl) - mu (h pl)) \<and>
         map_of (rep_new_sigma rep) (name (h pl)) = Some (sigma (h' pl)) \<and>
         distinct (map fst (rep_delta_mu rep)) \<and> distinct (map fst (rep_new_sigma rep)) \<and>
         mu (h' pw) = mu (h pw) + sigma (h pw) * sigma (h pw) / rep_c rep * rep_v rep \<and>
         mu (h' pl) = mu (h pl) - sigma (h pl) * sigma (h pl) / rep_c rep * rep_v rep \<and>
         sigma (h' pw) = sqrt (max (1 / 10 ^ 9) (sigma (h pw) * sigma (h pw) *
            (1 - sigma (h pw) * sigma (h pw) / (rep_c rep * rep_c rep) * rep_w rep))) \<and>
         sigma (h' pl) = sqrt (max (1 / 10 ^ 9) (sigma (h pl) * sigma (h pl) *
            (1 - sigma (h pl) * sigma (h pl) / (rep_c rep * rep_c rep) * rep_w rep)))"
proof -
  define c v w where "c = pair_c env h ws ls" and "v = pair_v env h ws ls is_draw"
    and "w = pair_w env h ws ls is_draw"
  define sw where "sw = fold (ep_step True c v w) ws (h, [], [])"
  define sl where "sl = fold (ep_step False c v w) (xs @ pl # ys) sw"
  note R = rate_two_teams_report [OF assms(1)]
  have loops: "pair_loops env ws ls is_draw h = sl"
    by (simp add: pair_loops_def assms(4) sl_def sw_def c_def v_def w_def)
  have pl_ws: "pl \<notin> set ws" and pl_xs: "pl \<notin> set xs" and pl_ys: "pl \<notin> set ys"
    and pw_ls: "pw \<notin> set (xs @ pl # ys)"
    using assms(2,3,4) by auto
  have sw_pl: "fst sw pl = h pl" using pl_ws by (simp add: sw_def ep_loop_other)
  have sw_names: "\<forall>q\<in>set ys. name (fst sw q) \<noteq> name (fst sw pl)"
    using assms(6) by (simp add: sw_def ep_loop_name)
  have entry: "map_of (fst (snd sl)) (name (h pl)) = Some (mu (fst sl pl) - mu (h pl))"
              "map_of (snd (snd sl)) (name (h pl)) = Some (sigma (fst sl pl))"
    using ep_loop_last_entry [OF pl_xs pl_ys sw_names, of False c v w] sw_pl
    by (simp_all add: sl_def)
  have keys: "distinct (map fst (fst (snd sl))) \<and> distinct (map fst (snd (snd sl)))"
    unfolding sl_def sw_def by (intro ep_loop_keys) simp
  have at_pl: "fst sl pl = (h pl)\<lparr>mu := mu (h pl) - sigma (h pl) * sigma (h pl) / c * v,
      sigma := sqrt (max (1 / 10 ^ 9) (sigma (h pl) * sigma (h pl) *
                 (1 - sigma (h pl) * sigma (h pl) / (c * c) * w)))\<rparr>"
    using ep_loop_at [OF pl_xs pl_ys, of False c v w sw] sw_pl by (simp add: sl_def)
  obtain us vs where ws: "ws = us @ pw # vs"
    using assms(3) by (auto dest: split_list)
  then have "pw \<notin> set us" "pw \<notin> set vs" using assms(2) by auto
  then have "fst sw pw = (h pw)\<lparr>mu := mu (h pw) + sigma (h pw) * sigma (h pw) / c * v,
      sigma := sqrt (max (1 / 10 ^ 9) (sigma (h pw) * sigma (h pw) *
                 (1 - sigma (h pw) * sigma (h pw) / (c * c) * w)))\<rparr>"
    unfolding ws sw_def using ep_loop_at [of pw us vs True c v w "(h, [], [])"] by simp
  moreover have "fst sl pw = fst sw pw" unfolding sl_def using pw_ls by (rule ep_loop_other)
  ultimately have at_pw: "fst sl pw =
      (h pw)\<lparr>mu := mu (h pw) + sigma (h pw) * sigma (h pw) / c * v,
      sigma := sqrt (max (1 / 10 ^ 9) (sigma (h pw) * sigma (h pw) *
                 (1 - sigma (h pw) * sigma (h pw) / (c * c) * w)))\<rparr>"
    by simp
  show ?thesis
    unfolding R(2-7) loops c_def [symmetric] v_def [symmetric] w_def [symmetric]
    using entry keys at_pl at_pw by simp
qed

theorem report_name_collision_witness:
  "(case rate_two_teams default_env [0] [1] False True (\<lambda>_. make_player default_env ''A'') of
      (Inr (Some rep), h') \<Rightarrow>
         map fst (rep_delta_mu rep) = [''A''] \<and>
         map_of (rep_delta_mu rep) ''A'' = Some (mu (h' 1) - 25) \<and>
         map_of (rep_new_sigma rep) ''A'' = Some (sigma (h' 1)) \<and>
         mu (h' 0) = 25 + 25 / 3 * (25 / 3) / rep_c rep * rep_v rep \<and>
         mu (h' 1) = 25 - 25 / 3 * (25 / 3) / rep_c rep * rep_v rep
    | _ \<Rightarrow> False)"
proof -
  let ?h = "\<lambda>_::nat. make_player default_env ''A''"
  obtain rep h' where r: "rate_two_teams default_env [0] [1] False True ?h = (Inr (Some rep), h')"
    by (simp add: rate_two_teams_eq c_squared_sum default_env_def init_def make_player_def)
  have keys: "map fst (rep_delta_mu rep) = [''A'']"
    using rate_two_teams_report(3) [OF r]
    by (simp add: pair_loops_def ep_step_unfold make_player_def)
  have vals: "name (?h 1) = ''A''" "mu (?h 0) = 25" "mu (?h 1) = 25" "sigma (?h 0) = 25 / 3"
    "sigma (?h 1) = 25 / 3"
    by (simp_all add: make_player_def default_env_def init_def)
  have "\<forall>q\<in>set []. name (?h q) \<noteq> name (?h 1)" by simp
  from report_name_collision [OF r _ _ _ _ this, of 0 "[]"]
  have "map_of (rep_delta_mu rep) (name (?h 1)) = Some (mu (h' 1) - mu (?h 1)) \<and>
        map_of (rep_new_sigma rep) (name (?h 1)) = Some (sigma (h' 1)) \<and>
        mu (h' 0) = mu (?h 0) + sigma (?h 0) * sigma (?h 0) / rep_c rep * rep_v rep \<and>
        mu (h' 1) = mu (?h 1) - sigma (?h 1) * sigma (?h 1) / rep_c rep * rep_v rep"
    by simp
  then have "map fst (rep_delta_mu rep) = [''A''] \<and>
         map_of (rep_delta_mu rep) ''A'' = Some (mu (h' 1) - 25) \<and>
         map_of (rep_new_sigma rep) ''A'' = Some (sigma (h' 1)) \<and>
         mu (h' 0) = 25 + 25 / 3 * (25 / 3) / rep_c rep * rep_v rep \<and>
         mu (h' 1) = 25 - 25 / 3 * (25 / 3) / rep_c rep * rep_v rep"
    unfolding vals using keys by blast
  then show ?thesis unfolding r by simp
qed

section \<open>The error function\<close>

lemma erf_zero: "erf 0 = 0"
proof -
  have "(\<lambda>n. erf_coeffs n * 0 ^ n) = (\<lambda>n. 0)"
  proof
    fix n show "erf_coeffs n * 0 ^ n = 0" by (cases n) simp_all
  qed
  then show ?thesis by (simp add: erf_def)
qed

lemma gauss_series: "(\<lambda>n. gauss_coeffs n * x ^ n) sums exp (- (x\<^sup>2))"
proof -
  have "(\<lambda>k::nat. 0::real) sums 0" by simp
  moreover have "(\<lambda>k. (- (x\<^sup>2)) ^ k /\<^sub>R fact k) sums exp (- (x\<^sup>2))"
    by (rule exp_converges)
  ultimately have "(\<lambda>n. if even n then (- (x\<^sup>2)) ^ (n div 2) /\<^sub>R fact (n div 2) else 0)
      sums (0 + exp (- (x\<^sup>2)))"
    by (rule sums_if [where g = "\<lambda>k. 0" and f = "\<lambda>k. (- (x\<^sup>2)) ^ k /\<^sub>R fact k"])
  moreover have "(if even n then (- (x\<^sup>2)) ^ (n div 2) /\<^sub>R fact (n div 2) else 0)
      = gauss_coeffs n * x ^ n" for n
  proof (cases "even n")
    case True
    then obtain k where n: "n = 2 * k" by (auto elim: evenE)
    have "(- (x\<^sup>2)) ^ k = (- 1) ^ k * x ^ (2 * k)"
      by (simp add: power_minus [of "x\<^sup>2"] power_mult)
    then show ?thesis by (simp add: gauss_coeffs_def n divide_inverse mult_ac)
  next
    case False
    then show ?thesis by (simp add: gauss_coeffs_def)
  qed
  ultimately show ?thesis by simp
qed

lemma gauss_series_abs: "summable (\<lambda>n. \<bar>gauss_coeffs n * x ^ n\<bar>)"
proof -
  have "(\<lambda>k::nat. 0::real) sums 0" by simp
  moreover have "(\<lambda>k. (x\<^sup>2) ^ k /\<^sub>R fact k) sums exp (x\<^sup>2)" by (rule exp_converges)
  ultimately have "(\<lambda>n. if even n then (x\<^sup>2) ^ (n div 2) /\<^sub>R fact (n div 2) else 0)
      sums (0 + exp (x\<^sup>2))"
    by (rule sums_if [where g = "\<lambda>k. 0" and f = "\<lambda>k. (x\<^sup>2) ^ k /\<^sub>R fact k"])
  moreover have "(if even n then (x\<^sup>2) ^ (n div 2) /\<^sub>R fact (n div 2) else 0)
      = \<bar>gauss_coeffs n * x ^ n\<bar>" for n
  proof (cases "even n")
    case True
    then obtain k where n: "n = 2 * k" by (auto elim: evenE)
    have "\<bar>x ^ (2 * k)\<bar> = (x\<^sup>2) ^ k" by (simp add: power_mult)
    then show ?thesis
      by (simp add: gauss_coeffs_def n divide_inverse abs_mult power_abs mult_ac)
  next
    case False
    then show ?thesis by (simp add: gauss_coeffs_def)
  qed
  ultimately show ?thesis by (auto simp: sums_iff)
qed

lemma erf_series_summable: "summable (\<lambda>n. erf_coeffs n * x ^ n)"
proof -
  have g: "summable (\<lambda>n. (2 / sqrt pi * \<bar>x\<bar>) * \<bar>gauss_coeffs n * x ^ n\<bar>)"
    by (intro summable_mult gauss_series_abs)
  have bound: "norm (erf_coeffs (Suc n) * x ^ Suc n)
      \<le> (2 / sqrt pi * \<bar>x\<bar>) * \<bar>gauss_coeffs n * x ^ n\<bar>" for n
  proof -
    have "\<bar>erf_coeffs (Suc n) * x ^ Suc n\<bar>
        = (2 / sqrt pi * \<bar>x\<bar>) * \<bar>gauss_coeffs n * x ^ n\<bar> / real (Suc n)"
      by (simp add: abs_mult)
    also have "\<dots> \<le> (2 / sqrt pi * \<bar>x\<bar>) * \<bar>gauss_coeffs n * x ^ n\<bar> / 1"
      by (intro divide_left_mono mult_nonneg_nonneg) simp_all
    finally show ?thesis by simp
  qed
  have "summable (\<lambda>n. erf_coeffs (Suc n) * x ^ Suc n)"
  proof (rule summable_comparison_test)
    show "\<exists>N. \<forall>n\<ge>N. norm (erf_coeffs (Suc n) * x ^ Suc n)
        \<le> (2 / sqrt pi * \<bar>x\<bar>) * \<bar>gauss_coeffs n * x ^ n\<bar>"
      using bound by blast
    show "summable (\<lambda>n. (2 / sqrt pi * \<bar>x\<bar>) * \<bar>gauss_coeffs n * x ^ n\<bar>)" by (rule g)
  qed
  then show ?thesis
    using summable_Suc_iff [of "\<lambda>n. erf_coeffs n * x ^ n"] by blast
qed

lemma erf_deriv: "(erf has_real_derivative 2 / sqrt pi * exp (- (x\<^sup>2))) (at x)"
proof -
  have d: "diffs erf_coeffs n = 2 / sqrt pi * gauss_coeffs n" for n
    by (simp add: diffs_def)
  have "(\<lambda>n. 2 / sqrt pi * (gauss_coeffs n * x ^ n)) sums (2 / sqrt pi * exp (- (x\<^sup>2)))"
    by (intro sums_mult gauss_series)
  then have "(\<Sum>n. diffs erf_coeffs n * x ^ n) = 2 / sqrt pi * exp (- (x\<^sup>2))"
    by (simp add: d sums_iff mult.assoc)
  moreover have "((\<lambda>x. \<Sum>n. erf_coeffs n * x ^ n) has_field_derivative
      (\<Sum>n. diffs erf_coeffs n * x ^ n)) (at x)"
    by (rule termdiffs_strong_converges_everywhere) (rule erf_series_summable)
  ultimately show ?thesis
    unfolding erf_def [abs_def] by simp
qed

lemma erf_strict_mono:
  assumes "x < y"
  shows "erf x < erf y"
  using assms
proof (rule DERIV_pos_imp_increasing)
  fix z
  have "0 < 2 / sqrt pi * exp (- (z\<^sup>2))" by simp
  then show "\<exists>d. (erf has_real_derivative d) (at z) \<and> 0 < d"
    using erf_deriv by blast
qed

lemma erf_mono: "x \<le> y \<Longrightarrow> erf x \<le> erf y"
  using erf_strict_mono [of x y] by (cases "x = y") auto

lemma Phi_zero: "Phi 0 = 1 / 2"
  by (simp add: Phi_def erf_zero)

lemma Phi_strict_mono: "x < y \<Longrightarrow> Phi x < Phi y"
  by (simp add: Phi_def SQRT2_def erf_strict_mono divide_strict_right_mono)

lemma phi_pos: "0 < phi x"
  by (simp add: phi_def SQRT_2PI_def)

section \<open>One player against one player with equal priors\<close>

lemma phi_zero: "phi 0 = 1 / sqrt (2 * pi)"
  by (simp add: phi_def SQRT_2PI_def)

lemma v_truncate_zero: "v_truncate 0 = 2 / sqrt (2 * pi)"
  by (simp add: v_truncate_def Phi_zero phi_zero)

lemma w_truncate_zero: "w_truncate 0 = 2 / pi"
proof -
  have "sqrt (2 * pi) * sqrt (2 * pi) = 2 * pi" by simp
  then have "(2 / sqrt (2 * pi)) * (2 / sqrt (2 * pi)) = 4 / (2 * pi)"
    by simp
  then show ?thesis by (simp add: w_truncate_def v_truncate_zero)
qed

lemma drift_pair:
  "a \<noteq> b \<Longrightarrow>
   drift_all env [[a], [b]] h =
     h(a := (h a)\<lparr>sigma := sqrt (sigma (h a) * sigma (h a) + tau env * tau env)\<rparr>,
       b := (h b)\<lparr>sigma := sqrt (sigma (h b) * sigma (h b) + tau env * tau env)\<rparr>)"
  by (simp add: drift_all_def apply_drift_def)

lemma pair_loops_1v1:
  "pw \<noteq> pl \<Longrightarrow>
   fst (pair_loops env [pw] [pl] d h) =
     h(pw := (h pw)\<lparr>mu := mu (h pw)
                + sigma (h pw) * sigma (h pw) / pair_c env h [pw] [pl] * pair_v env h [pw] [pl] d,
              sigma := sqrt (max (1 / 10 ^ 9) (sigma (h pw) * sigma (h pw) *
                (1 - sigma (h pw) * sigma (h pw)
                   / (pair_c env h [pw] [pl] * pair_c env h [pw] [pl])
                   * pair_w env h [pw] [pl] d)))\<rparr>,
       pl := (h pl)\<lparr>mu := mu (h pl)
                - sigma (h pl) * sigma (h pl) / pair_c env h [pw] [pl] * pair_v env h [pw] [pl] d,
              sigma := sqrt (max (1 / 10 ^ 9) (sigma (h pl) * sigma (h pl) *
                (1 - sigma (h pl) * sigma (h pl)
                   / (pair_c env h [pw] [pl] * pair_c env h [pw] [pl])
                   * pair_w env h [pw] [pl] d)))\<rparr>)"
  by (simp add: pair_loops_def ep_step_unfold)

lemma rate_two_teams_fst:
  "0 < c_squared env h ws ls \<Longrightarrow> \<exists>rep. fst (rate_two_teams env ws ls d col h) = Inr rep"
  by (simp add: rate_two_teams_eq)

lemma rate_1v1_nondraw:
  assumes "r0 \<noteq> r1"
  shows "rate env [[a], [b]] [r0, r1] rr h =
     (let h1 = drift_all env [[a], [b]] h;
          pw = (if r0 < r1 then a else b); pl = (if r0 < r1 then b else a)
      in case rate_two_teams env [pw] [pl] False rr h1 of
           (Inl e, h') \<Rightarrow> (Inl e, h')
         | (Inr rep, h') \<Rightarrow>
             (Inr (case rep of Some r \<Rightarrow> if rr then Some [r] else None | None \<Rightarrow> None), h'))"
  using assms by (simp add: rate_def Let_def)


lemma equal_pair_update:
  assumes "pw \<noteq> pl" and "mu (h1 pw) = mu (h1 pl)"
    and "sigma (h1 pw) = sqrt s" and "sigma (h1 pl) = sqrt s"
    and "0 \<le> trust env" and "1 / 10 ^ 9 < s"
    and "c2 = 2 * ((1 + trust env) * s + beta env * beta env)"
    and "h' = snd (rate_two_teams env [pw] [pl] False rr h1)"
  shows "0 < c_squared env h1 [pw] [pl]"
    and "mu (h' pw) = mu (h1 pw) + s / sqrt c2 * (2 / sqrt (2 * pi))"
    and "mu (h' pl) = mu (h1 pl) - s / sqrt c2 * (2 / sqrt (2 * pi))"
    and "sigma (h' pw) = sqrt (max (1 / 10 ^ 9) (s * (1 - s / c2 * (2 / pi))))"
    and "sigma (h' pl) = sqrt (max (1 / 10 ^ 9) (s * (1 - s / c2 * (2 / pi))))"
    and "0 < s / sqrt c2 * (2 / sqrt (2 * pi))"
    and "max (1 / 10 ^ 9) (s * (1 - s / c2 * (2 / pi))) < s"
proof -
  have s: "0 < s" by (rule less_trans [OF _ assms(6)]) simp
  then have ss: "sqrt s * sqrt s = s" "\<bar>s\<bar> = s" by simp_all
  have "0 < (1 + trust env) * s" using s assms(5) by simp
  moreover have "0 \<le> beta env * beta env" by simp
  ultimately have "0 < (1 + trust env) * s + beta env * beta env" by (rule add_pos_nonneg)
  then have c2: "0 < c2" unfolding assms(7) by simp
  have cs: "c_squared env h1 [pw] [pl] = c2"
    by (simp add: c_squared_sum assms(3,4,7) ss algebra_simps)
  show "0 < c_squared env h1 [pw] [pl]" using cs c2 by simp
  have c: "pair_c env h1 [pw] [pl] = sqrt c2" by (simp add: pair_c_def cs)
  have cc: "sqrt c2 * sqrt c2 = c2" using c2 by simp
  have t: "pair_t env h1 [pw] [pl] = 0" by (simp add: pair_t_def team_mu_def assms(2))
  have v: "pair_v env h1 [pw] [pl] False = 2 / sqrt (2 * pi)"
    by (simp add: pair_v_def t v_truncate_zero)
  have w: "pair_w env h1 [pw] [pl] False = 2 / pi"
    by (simp add: pair_w_def t w_truncate_zero)
  have h': "h' = fst (pair_loops env [pw] [pl] False h1)"
    using cs c2 by (simp add: assms(8) rate_two_teams_heap)
  show "mu (h' pw) = mu (h1 pw) + s / sqrt c2 * (2 / sqrt (2 * pi))"
    unfolding h' pair_loops_1v1 [OF assms(1)] c v w using assms(1)
    by (simp add: assms(3) ss)
  show "mu (h' pl) = mu (h1 pl) - s / sqrt c2 * (2 / sqrt (2 * pi))"
    unfolding h' pair_loops_1v1 [OF assms(1)] c v w using assms(1)
    by (simp add: assms(4) ss)
  show "sigma (h' pw) = sqrt (max (1 / 10 ^ 9) (s * (1 - s / c2 * (2 / pi))))"
    unfolding h' pair_loops_1v1 [OF assms(1)] c v w cc using assms(1)
    by (simp add: assms(3) ss)
  show "sigma (h' pl) = sqrt (max (1 / 10 ^ 9) (s * (1 - s / c2 * (2 / pi))))"
    unfolding h' pair_loops_1v1 [OF assms(1)] c v w cc using assms(1)
    by (simp add: assms(4) ss)
  show "0 < s / sqrt c2 * (2 / sqrt (2 * pi))" using s c2 by simp
  have "0 < s / c2 * (2 / pi)" using s c2 by simp
  then have "1 - s / c2 * (2 / pi) < 1" by simp
  then have "s * (1 - s / c2 * (2 / pi)) < s * 1" using s by (rule mult_strict_left_mono)
  then show "max (1 / 10 ^ 9) (s * (1 - s / c2 * (2 / pi))) < s" using assms(6) by simp
qed


lemma rate_equal_priors:
  fixes env h a b r0 r1 rr
  defines "s \<equiv> sigma (h a) * sigma (h a) + tau env * tau env"
  defines "c2 \<equiv> 2 * ((1 + trust env) * s + beta env * beta env)"
  defines "h' \<equiv> snd (rate env [[a], [b]] [r0, r1] rr h)"
  defines "pw \<equiv> if r0 < r1 then a else b" and "pl \<equiv> if r0 < r1 then b else a"
  assumes "a \<noteq> b" and "mu (h a) = mu (h b)" and "sigma (h a) = sigma (h b)" and "r0 \<noteq> r1"
    and "0 \<le> trust env" and "1 / 10 ^ 9 < s"
  shows "\<exists>reps. fst (rate env [[a], [b]] [r0, r1] rr h) = Inr reps"
    and "mu (h' pw) = mu (h pw) + s / sqrt c2 * (2 / sqrt (2 * pi))"
    and "mu (h' pl) = mu (h pl) - s / sqrt c2 * (2 / sqrt (2 * pi))"
    and "sigma (h' a) = sqrt (max (1 / 10 ^ 9) (s * (1 - s / c2 * (2 / pi))))"
    and "sigma (h' b) = sqrt (max (1 / 10 ^ 9) (s * (1 - s / c2 * (2 / pi))))"
    and "0 < s / sqrt c2 * (2 / sqrt (2 * pi))"
    and "max (1 / 10 ^ 9) (s * (1 - s / c2 * (2 / pi))) < s"
proof -
  define h1 where "h1 = drift_all env [[a], [b]] h"
  define R where "R = rate_two_teams env [pw] [pl] False rr h1"
  have ne: "pw \<noteq> pl" using \<open>a \<noteq> b\<close> by (simp add: pw_def pl_def)
  have ab: "(pw = a \<and> pl = b) \<or> (pw = b \<and> pl = a)" by (simp add: pw_def pl_def)
  have h1: "mu (h1 a) = mu (h a)" "mu (h1 b) = mu (h b)"
    "sigma (h1 a) = sqrt s" "sigma (h1 b) = sqrt s"
    using \<open>a \<noteq> b\<close> \<open>sigma (h a) = sigma (h b)\<close> by (simp_all add: h1_def drift_pair s_def)
  have mu_eq: "mu (h1 pw) = mu (h1 pl)" and sw: "sigma (h1 pw) = sqrt s"
    and sl: "sigma (h1 pl) = sqrt s" and muw: "mu (h1 pw) = mu (h pw)"
    and mul: "mu (h1 pl) = mu (h pl)"
    using ab h1 \<open>mu (h a) = mu (h b)\<close> by auto
  have rate: "rate env [[a], [b]] [r0, r1] rr h =
      (case R of (Inl e, h') \<Rightarrow> (Inl e, h')
       | (Inr rep, h') \<Rightarrow>
          (Inr (case rep of Some r \<Rightarrow> if rr then Some [r] else None | None \<Rightarrow> None), h'))"
    using rate_1v1_nondraw [OF \<open>r0 \<noteq> r1\<close>, of env a b rr h]
    by (simp add: Let_def R_def h1_def pw_def pl_def)
  have h': "h' = snd R" unfolding h'_def rate by (simp split: prod.splits sum.splits)
  note E = equal_pair_update [OF ne mu_eq sw sl \<open>0 \<le> trust env\<close> \<open>1 / 10 ^ 9 < s\<close>
      c2_def [THEN meta_eq_to_obj_eq] h' [unfolded R_def]]
  from rate_two_teams_fst [OF E(1), of False rr]
  obtain rep where "fst R = Inr rep" unfolding R_def by blast
  then show "\<exists>reps. fst (rate env [[a], [b]] [r0, r1] rr h) = Inr reps"
    unfolding rate by (cases R) simp
  show "mu (h' pw) = mu (h pw) + s / sqrt c2 * (2 / sqrt (2 * pi))"
    using E(2) muw by simp
  show "mu (h' pl) = mu (h pl) - s / sqrt c2 * (2 / sqrt (2 * pi))"
    using E(3) mul by simp
  show "sigma (h' a) = sqrt (max (1 / 10 ^ 9) (s * (1 - s / c2 * (2 / pi))))"
    using ab E(4,5) by auto
  show "sigma (h' b) = sqrt (max (1 / 10 ^ 9) (s * (1 - s / c2 * (2 / pi))))"
    using ab E(4,5) by auto
  show "0 < s / sqrt c2 * (2 / sqrt (2 * pi))" by (rule E(6))
  show "max (1 / 10 ^ 9) (s * (1 - s / c2 * (2 / pi))) < s" by (rule E(7))
qed


text \<open>
  C8, as the code has it: two distinct players with the same \<open>mu\<close> and \<open>sigma\<close> are rated
  one against one with different ranks, in an environment with \<open>trust \<ge> 0\<close>. With
  \<open>s = sigma\<^sup>2 + tau\<^sup>2\<close> the drifted variance and \<open>s > 1e-9\<close>, the call returns, the winner's
  \<open>mu\<close> rises and the loser's falls by the same amount, and both \<open>sigma\<close> end at
  \<open>\<surd>(max 1e-9 (s (1 - s/c\<^sup>2 \<cdot> 2/\<pi>)))\<close>, strictly below the drifted \<open>\<surd>s\<close>; with \<open>tau = 0\<close> that
  is strictly below the prior \<open>sigma\<close>.
\<close>

theorem equal_priors_one_vs_one:
  fixes env h a b r0 r1 rr
  defines "s \<equiv> sigma (h a) * sigma (h a) + tau env * tau env"
  defines "c2 \<equiv> 2 * ((1 + trust env) * s + beta env * beta env)"
  defines "h' \<equiv> snd (rate env [[a], [b]] [r0, r1] rr h)"
  defines "pw \<equiv> if r0 < r1 then a else b" and "pl \<equiv> if r0 < r1 then b else a"
  assumes "a \<noteq> b" and "mu (h a) = mu (h b)" and "sigma (h a) = sigma (h b)" and "r0 \<noteq> r1"
    and "0 \<le> trust env" and "1 / 10 ^ 9 < s"
  shows "(\<exists>reps. fst (rate env [[a], [b]] [r0, r1] rr h) = Inr reps) \<and>
         mu (h' pw) - mu (h pw) = - (mu (h' pl) - mu (h pl)) \<and>
         mu (h pw) < mu (h' pw) \<and> mu (h' pl) < mu (h pl) \<and>
         sigma (h' a) = sqrt (max (1 / 10 ^ 9) (s * (1 - s / c2 * (2 / pi)))) \<and>
         sigma (h' b) = sqrt (max (1 / 10 ^ 9) (s * (1 - s / c2 * (2 / pi)))) \<and>
         sigma (h' a) < sqrt s \<and> sigma (h' b) < sqrt s \<and>
         (tau env = 0 \<and> 0 \<le> sigma (h a)
            \<longrightarrow> sigma (h' a) < sigma (h a) \<and> sigma (h' b) < sigma (h b))"
proof -
  note A = assms(6-10) assms(11) [unfolded s_def]
  have ret: "\<exists>reps. fst (rate env [[a], [b]] [r0, r1] rr h) = Inr reps"
    by (rule rate_equal_priors(1) [OF A])
  have muw: "mu (h' pw) = mu (h pw) + s / sqrt c2 * (2 / sqrt (2 * pi))"
    unfolding s_def c2_def h'_def pw_def pl_def by (rule rate_equal_priors(2) [OF A])
  have mul: "mu (h' pl) = mu (h pl) - s / sqrt c2 * (2 / sqrt (2 * pi))"
    unfolding s_def c2_def h'_def pw_def pl_def by (rule rate_equal_priors(3) [OF A])
  have sa: "sigma (h' a) = sqrt (max (1 / 10 ^ 9) (s * (1 - s / c2 * (2 / pi))))"
    unfolding s_def c2_def h'_def by (rule rate_equal_priors(4) [OF A])
  have sb: "sigma (h' b) = sqrt (max (1 / 10 ^ 9) (s * (1 - s / c2 * (2 / pi))))"
    unfolding s_def c2_def h'_def by (rule rate_equal_priors(5) [OF A])
  have pos: "0 < s / sqrt c2 * (2 / sqrt (2 * pi))"
    unfolding s_def c2_def by (rule rate_equal_priors(6) [OF A])
  have "max (1 / 10 ^ 9) (s * (1 - s / c2 * (2 / pi))) < s"
    unfolding s_def c2_def by (rule rate_equal_priors(7) [OF A])
  then have lt: "sqrt (max (1 / 10 ^ 9) (s * (1 - s / c2 * (2 / pi)))) < sqrt s"
    by (simp only: real_sqrt_less_iff)
  have lta: "sigma (h' a) < sqrt s" and ltb: "sigma (h' b) < sqrt s"
    using lt sa sb by (simp_all only:)
  have eqmag: "mu (h' pw) - mu (h pw) = - (mu (h' pl) - mu (h pl))"
    unfolding muw mul by simp
  have up: "mu (h pw) < mu (h' pw)" and down: "mu (h' pl) < mu (h pl)"
    unfolding muw mul using pos by simp_all
  have prior: "tau env = 0 \<and> 0 \<le> sigma (h a)
      \<longrightarrow> sigma (h' a) < sigma (h a) \<and> sigma (h' b) < sigma (h b)"
  proof
    assume "tau env = 0 \<and> 0 \<le> sigma (h a)"
    then have "sqrt s = sigma (h a)" by (simp add: s_def)
    then show "sigma (h' a) < sigma (h a) \<and> sigma (h' b) < sigma (h b)"
      using lta ltb assms(8) by simp
  qed
  show ?thesis using ret eqmag up down sa sb lta ltb prior by blast
qed

theorem equal_priors_one_vs_one_witness:
  "(0::nat) \<noteq> 1 \<and> (0::int) \<noteq> 1 \<and> 0 \<le> trust default_env \<and>
   (1::real) / 10 ^ 9 < 25 / 3 * (25 / 3) + tau default_env * tau default_env \<and>
   (\<exists>reps. fst (rate default_env [[0], [1]] [0, 1] True
                 (\<lambda>_. make_player default_env ''A'')) = Inr reps) \<and>
   mu (snd (rate default_env [[0], [1]] [0, 1] True (\<lambda>_. make_player default_env ''A'')) 0) - 25
     = - (mu (snd (rate default_env [[0], [1]] [0, 1] True
                     (\<lambda>_. make_player default_env ''A'')) 1) - 25) \<and>
   25 < mu (snd (rate default_env [[0], [1]] [0, 1] True (\<lambda>_. make_player default_env ''A'')) 0) \<and>
   mu (snd (rate default_env [[0], [1]] [0, 1] True (\<lambda>_. make_player default_env ''A'')) 1) < 25 \<and>
   sigma (snd (rate default_env [[0], [1]] [0, 1] True (\<lambda>_. make_player default_env ''A'')) 0)
     < 25 / 3 \<and>
   sigma (snd (rate default_env [[0], [1]] [0, 1] True (\<lambda>_. make_player default_env ''A'')) 1)
     < 25 / 3"
proof -
  let ?h = "\<lambda>_::nat. make_player default_env ''A''"
  let ?h' = "snd (rate default_env [[0], [1]] [0, 1] True ?h)"
  have vals: "mu (?h p) = 25" "sigma (?h p) = 25 / 3" "tau default_env = 1 / 12"
    "trust default_env = 0" "beta default_env = 25 / 6" for p :: nat
    by (simp_all add: make_player_def default_env_def init_def)
  have floor: "(1::real) / 10 ^ 9 < sigma (?h 0) * sigma (?h 0) + tau default_env * tau default_env"
    unfolding vals by simp
  have tr: "0 \<le> trust default_env" unfolding vals by simp
  have n1: "(0::nat) \<noteq> 1" and n2: "(0::int) \<noteq> 1" by simp_all
  have T: "(\<exists>reps. fst (rate default_env [[0], [1]] [0, 1] True ?h) = Inr reps) \<and>
      mu (?h' 0) - 25 = - (mu (?h' 1) - 25) \<and> 25 < mu (?h' 0) \<and> mu (?h' 1) < 25 \<and>
      sigma (?h' 0) = sqrt (max (1 / 10 ^ 9) ((10001 / 144) * (1 - 10001 / 25002 * (2 / pi)))) \<and>
      sigma (?h' 1) = sqrt (max (1 / 10 ^ 9) ((10001 / 144) * (1 - 10001 / 25002 * (2 / pi))))"
    using equal_priors_one_vs_one [of 0 1 ?h 0 1 default_env True, OF n1 _ _ n2 tr floor]
    unfolding vals by simp
  define y where "y = 2 / pi"
  have "1 / 2 < y" unfolding y_def using pi_less_4 pi_gt_zero by (simp add: field_simps)
  then have "(10001 / 144) * (1 - 10001 / 25002 * y) < (25 / 3)\<^sup>2"
    by (simp add: power2_eq_square)
  moreover have "(1::real) / 10 ^ 9 < (25 / 3)\<^sup>2" by (simp add: power2_eq_square)
  ultimately
  have "max (1 / 10 ^ 9) ((10001 / 144) * (1 - 10001 / 25002 * y)) < (25 / 3)\<^sup>2"
    by (simp only: max_less_iff_conj)
  then have "sqrt (max (1 / 10 ^ 9) ((10001 / 144) * (1 - 10001 / 25002 * y))) < 25 / 3"
    by (rule real_less_lsqrt [rotated -1]) simp_all
  then have "sigma (?h' 0) < 25 / 3" "sigma (?h' 1) < 25 / 3"
    using T unfolding y_def by (simp_all only:)
  moreover have "(1::real) / 10 ^ 9 < 25 / 3 * (25 / 3) + tau default_env * tau default_env"
    using floor unfolding vals .
  ultimately show ?thesis using T n1 n2 tr by blast
qed


text \<open>
  Measured against the prior \<open>sigma\<close>, the drift can outweigh the update: in the default
  environment two players with \<open>mu = 25\<close> and \<open>sigma = 1/12\<close> both end with a larger \<open>sigma\<close>.
\<close>

theorem equal_priors_sigma_counterexample:
  "sigma ((\<lambda>_. \<lparr>name = ''A'', mu = 25, sigma = 1 / 12\<rparr>) (0::nat))
     < sigma (snd (rate default_env [[0], [1]] [0, 1] False
                     (\<lambda>_. \<lparr>name = ''A'', mu = 25, sigma = 1 / 12\<rparr>)) 0)"
proof -
  let ?h = "\<lambda>_::nat. \<lparr>name = ''A'', mu = 25, sigma = 1 / 12\<rparr>"
  let ?h' = "snd (rate default_env [[0], [1]] [0, 1] False ?h)"
  have vals: "tau default_env = 1 / 12" "trust default_env = 0" "beta default_env = 25 / 6"
    by (simp_all add: default_env_def init_def)
  have floor: "(1::real) / 10 ^ 9 < sigma (?h 0) * sigma (?h 0) + tau default_env * tau default_env"
    unfolding vals by simp
  have tr: "0 \<le> trust default_env" unfolding vals by simp
  have n1: "(0::nat) \<noteq> 1" and n2: "(0::int) \<noteq> 1" by simp_all
  have S: "sigma (?h' 0) = sqrt (max (1 / 10 ^ 9) ((1 / 72) * (1 - 1 / 2502 * (2 / pi))))"
    using rate_equal_priors(4) [of 0 1 ?h 0 1 default_env False, OF n1 _ _ n2 tr floor]
    unfolding vals by simp
  define y where "y = 2 / pi"
  have "y \<le> 1" unfolding y_def using pi_ge_two by simp
  then have "(1 / 12)\<^sup>2 < (1 / 72) * (1 - 1 / 2502 * y)"
    by (simp add: power2_eq_square)
  then have "(1 / 12)\<^sup>2 < max (1 / 10 ^ 9) ((1 / 72) * (1 - 1 / 2502 * y))"
    by (simp only: less_max_iff_disj simp_thms)
  then have "1 / 12 < sqrt (max (1 / 10 ^ 9) ((1 / 72) * (1 - 1 / 2502 * y)))"
    by (rule real_less_rsqrt)
  then have "1 / 12 < sigma (?h' 0)" using S unfolding y_def by (simp only:)
  then show ?thesis by simp
qed

section \<open>Empty teams\<close>

lemma c_squared_pos:
  assumes "0 \<le> trust env" and "beta env \<noteq> 0" and "ws @ ls \<noteq> []"
  shows "0 < c_squared env h ws ls"
proof -
  have summand: "0 < (1 + trust env) * (sigma (h p) * sigma (h p)) + beta env * beta env" for p
  proof -
    have "0 \<le> (1 + trust env) * (sigma (h p) * sigma (h p))" using assms(1) by simp
    moreover have "0 < beta env * beta env"
      using assms(2) by (simp add: power2_eq_square [symmetric])
    ultimately show ?thesis by (rule add_nonneg_pos)
  qed
  have "0 < (\<Sum>p\<leftarrow>ps. (1 + trust env) * (sigma (h p) * sigma (h p)) + beta env * beta env)"
    if "ps \<noteq> []" for ps
    using that
  proof (induction ps)
    case Nil
    then show ?case by simp
  next
    case (Cons p ps)
    show ?case
    proof (cases "ps = []")
      case True
      then show ?thesis using summand [of p] by simp
    next
      case False
      then show ?thesis using Cons.IH summand [of p] by simp
    qed
  qed
  then show ?thesis using assms(3) unfolding c_squared_sum by blast
qed

lemma c_squared_nil: "c_squared env h [] [] = 0"
  by (simp add: c_squared_sum)

lemma rate_two:
  "rate env [t0, t1] [r0, r1] rr h =
     (let h1 = drift_all env [t0, t1] h;
          R = (if r0 = r1 then rate_two_teams env t0 t1 True rr h1
               else if r0 < r1 then rate_two_teams env t0 t1 False rr h1
               else rate_two_teams env t1 t0 False rr h1)
      in case R of
           (Inl e, h') \<Rightarrow> (Inl e, h')
         | (Inr rep, h') \<Rightarrow>
             (Inr (case rep of Some r \<Rightarrow> if rr then Some [r] else None | None \<Rightarrow> None), h'))"
  by (simp add: rate_def Let_def)

lemma rate_two_returns:
  assumes "0 \<le> trust env" and "beta env \<noteq> 0" and "t0 \<noteq> [] \<or> t1 \<noteq> []"
  shows "\<exists>reps. fst (rate env [t0, t1] [r0, r1] rr h) = Inr reps"
proof -
  define h1 where "h1 = drift_all env [t0, t1] h"
  have "0 < c_squared env h1 t0 t1" "0 < c_squared env h1 t1 t0"
    using assms by (auto intro!: c_squared_pos)
  then show ?thesis
    unfolding rate_two Let_def h1_def [symmetric]
    by (simp add: rate_two_teams_eq)
qed

lemma rate_two_empty:
  "rate env [[], []] [r0, r1] rr h = (Inl ZeroDivisionError, h)"
  by (simp add: rate_two Let_def rate_two_teams_eq c_squared_nil drift_all_def)

lemma v_truncate_nonzero: "v_truncate t \<noteq> 0"
proof (cases "Phi t < 1 / 10 ^ 12")
  case True
  have "t \<noteq> 0"
  proof
    assume "t = 0"
    then show False using True by (simp add: Phi_zero)
  qed
  then show ?thesis using True by (simp add: v_truncate_def)
next
  case False
  then have "0 < Phi t" by (simp add: not_less less_le_trans [of 0 "1 / 10 ^ 12"])
  then have "0 < phi t / Phi t" using phi_pos by simp
  then have "phi t / Phi t \<noteq> 0" by (rule less_imp_neq [THEN not_sym])
  then show ?thesis using False by (simp only: v_truncate_def Let_def if_False simp_thms)
qed

lemma rate_one_vs_empty:
  assumes "r0 < r1" and "0 \<le> trust env" and "beta env \<noteq> 0"
  shows "mu (snd (rate env [[p], []] [r0, r1] rr h) p) =
     mu (h p) + (sigma (h p) * sigma (h p) + tau env * tau env)
       / pair_c env (drift_all env [[p], []] h) [p] []
       * v_truncate (pair_t env (drift_all env [[p], []] h) [p] [])"
proof -
  define h1 where "h1 = drift_all env [[p], []] h"
  have h1: "h1 p = (h p)\<lparr>sigma := sqrt (sigma (h p) * sigma (h p) + tau env * tau env)\<rparr>"
    by (simp add: h1_def drift_all_def apply_drift_def)
  have "0 \<le> sigma (h p) * sigma (h p) + tau env * tau env" by simp
  then have sq: "sqrt (sigma (h p) * sigma (h p) + tau env * tau env)
      * sqrt (sigma (h p) * sigma (h p) + tau env * tau env)
      = sigma (h p) * sigma (h p) + tau env * tau env"
    by (rule real_sqrt_mult_self [THEN trans, OF abs_of_nonneg])
  have pos: "0 < c_squared env h1 [p] []" using assms(2,3) by (intro c_squared_pos) simp_all
  show ?thesis
    unfolding rate_two Let_def h1_def [symmetric] using assms(1) pos
    by (simp add: rate_two_teams_eq pair_loops_def ep_step_unfold pair_v_def h1 sq)
qed


lemma rate_two_returns_none:
  assumes "0 \<le> trust env" and "beta env \<noteq> 0" and "t0 \<noteq> [] \<or> t1 \<noteq> []"
  shows "fst (rate env [t0, t1] [r0, r1] False h) = Inr None"
proof -
  define h1 where "h1 = drift_all env [t0, t1] h"
  have "0 < c_squared env h1 t0 t1" "0 < c_squared env h1 t1 t0"
    using assms by (auto intro!: c_squared_pos)
  then show ?thesis
    unfolding rate_two Let_def h1_def [symmetric]
    by (simp add: rate_two_teams_eq)
qed

lemma rate_one_vs_empty_changes_mu:
  assumes "r0 < r1" and "0 \<le> trust env" and "beta env \<noteq> 0"
    and "sigma (h p) \<noteq> 0 \<or> tau env \<noteq> 0"
  shows "mu (snd (rate env [[p], []] [r0, r1] rr h) p) \<noteq> mu (h p)"
proof -
  define h1 where "h1 = drift_all env [[p], []] h"
  have "0 < c_squared env h1 [p] []" using assms(2,3) by (intro c_squared_pos) simp_all
  then have c: "pair_c env h1 [p] [] \<noteq> 0" by (simp add: pair_c_def)
  have s: "sigma (h p) * sigma (h p) + tau env * tau env \<noteq> 0"
    using assms(4) by simp
  have "(sigma (h p) * sigma (h p) + tau env * tau env) / pair_c env h1 [p] []
      * v_truncate (pair_t env h1 [p] []) \<noteq> 0"
    using c s v_truncate_nonzero by simp
  then show ?thesis
    unfolding rate_one_vs_empty [OF assms(1-3)] h1_def by simp
qed

text \<open>
  C5, as the code has it: \<^verbatim>\<open>rate\<close> has no check for an empty team. In an environment with
  \<open>trust \<ge> 0\<close> and \<open>beta * beta > 0\<close>, a submission of two teams of which at least one has a
  player returns without any failure. Only when both teams are empty does the call fail,
  and then with \<^verbatim>\<open>ZeroDivisionError\<close> from the division by \<open>c = 0\<close>, leaving the store as it
  was.
\<close>

theorem empty_team_not_rejected:
  assumes "0 \<le> trust env" and "0 < beta env * beta env"
  shows "(t0 \<noteq> [] \<or> t1 \<noteq> [] \<longrightarrow> (\<exists>reps. fst (rate env [t0, t1] [r0, r1] rr h) = Inr reps)) \<and>
         rate env [[], []] [r0, r1] rr h = (Inl ZeroDivisionError, h)"
proof (intro conjI impI)
  from assms(2) have be: "beta env \<noteq> 0" by auto
  assume "t0 \<noteq> [] \<or> t1 \<noteq> []"
  with assms(1) be show "\<exists>reps. fst (rate env [t0, t1] [r0, r1] rr h) = Inr reps"
    by (rule rate_two_returns)
next
  show "rate env [[], []] [r0, r1] rr h = (Inl ZeroDivisionError, h)"
    by (rule rate_two_empty)
qed

theorem empty_team_not_rejected_witness:
  "0 \<le> trust default_env \<and> 0 < beta default_env * beta default_env \<and> [0::nat] \<noteq> [] \<and>
   (\<exists>reps. fst (rate default_env [[0], []] [0, 1] True
                 (\<lambda>_. make_player default_env ''A'')) = Inr reps) \<and>
   rate default_env [[], []] [0, 1] True (\<lambda>_. make_player default_env ''A'')
     = (Inl ZeroDivisionError, \<lambda>_. make_player default_env ''A'')"
proof -
  have tr: "0 \<le> trust default_env" and be: "0 < beta default_env * beta default_env"
    by (simp_all add: default_env_def init_def)
  have ne: "[0::nat] \<noteq> []" by simp
  note T = empty_team_not_rejected [OF tr be, of "[0]" "[]" 0 1 True
      "\<lambda>_. make_player default_env ''A''"]
  from T ne have 1: "\<exists>reps. fst (rate default_env [[0], []] [0, 1] True
      (\<lambda>_. make_player default_env ''A'')) = Inr reps" by simp
  from T have 2: "rate default_env [[], []] [0, 1] True (\<lambda>_. make_player default_env ''A'')
     = (Inl ZeroDivisionError, \<lambda>_. make_player default_env ''A'')" by (rule conjunct2)
  show ?thesis using 1 2 tr be ne by (intro conjI)
qed

text \<open>
  The claim itself fails: a submission with an empty team returns normally and updates the
  player of the other team.
\<close>

theorem empty_team_counterexample:
  "fst (rate default_env [[0], []] [0, 1] False (\<lambda>_. make_player default_env ''A'')) = Inr None \<and>
   mu (snd (rate default_env [[0], []] [0, 1] False (\<lambda>_. make_player default_env ''A'')) 0)
     \<noteq> mu (make_player default_env ''A'')"
proof -
  have tr: "0 \<le> trust default_env" and be: "beta default_env \<noteq> 0"
    and sg: "sigma (make_player default_env ''A'') \<noteq> 0"
    by (simp_all add: default_env_def init_def make_player_def)
  have "fst (rate default_env [[0], []] [0, 1] False (\<lambda>_. make_player default_env ''A''))
      = Inr None"
    by (rule rate_two_returns_none [OF tr be]) simp
  moreover have "mu (snd (rate default_env [[0], []] [0, 1] False
      (\<lambda>_. make_player default_env ''A'')) 0) \<noteq> mu (make_player default_env ''A'')"
    by (rule rate_one_vs_empty_changes_mu [OF _ tr be]) (simp_all add: sg)
  ultimately show ?thesis by (rule conjI)
qed

section \<open>Free-for-all submissions\<close>

lemma rank_order_perm:
  "length (rank_order ranks) = length ranks" "set (rank_order ranks) = {0..<length ranks}"
  "distinct (rank_order ranks)"
  by (simp_all add: rank_order_def)

lemma rank_order_sorted: "sorted (map (\<lambda>i. ranks ! i) (rank_order ranks))"
  by (simp add: rank_order_def)

lemma rank_order_stable:
  "filter (\<lambda>i. ranks ! i = r) (rank_order ranks) = filter (\<lambda>i. ranks ! i = r) [0..<length ranks]"
  unfolding rank_order_def by (rule sort_key_stable)

lemma adjacent_pairs_length: "length (adjacent_pairs order) = length order - 1"
  by (simp add: adjacent_pairs_def)

lemma adjacent_pairs_nth:
  "i < length order - 1 \<Longrightarrow> adjacent_pairs order ! i = (order ! i, order ! Suc i)"
  by (simp add: adjacent_pairs_def nth_tl)

lemma adjacent_pairs_drop:
  "k < length order - 1 \<Longrightarrow>
   adjacent_pairs (drop k order) = (order ! k, order ! Suc k) # adjacent_pairs (drop (Suc k) order)"
proof -
  assume k: "k < length order - 1"
  then have "drop k order = order ! k # drop (Suc k) order"
    and "drop (Suc k) order = order ! Suc k # drop (Suc (Suc k)) order"
    by (simp_all add: Cons_nth_drop_Suc)
  then show ?thesis by (simp add: adjacent_pairs_def)
qed

lemma adjacent_pairs_short: "\<not> k < length order - 1 \<Longrightarrow> adjacent_pairs (drop k order) = []"
proof -
  assume "\<not> k < length order - 1"
  then have "length (adjacent_pairs (drop k order)) = 0"
    unfolding adjacent_pairs_length by simp
  then show ?thesis by simp
qed

lemma ffa_fold_error:
  "fold (ffa_step env teams ranks rr order) js (Inl e, h) = (Inl e, h)"
  by (induction js) (simp_all add: ffa_step_def)

lemma ffa_step_spec:
  "ffa_step env teams ranks rr order i (Inr acc, h) =
     (case rate_two_teams env (teams ! (order ! i)) (teams ! (order ! Suc i))
             (ranks ! (order ! i) = ranks ! (order ! Suc i)) rr h of
        (Inl e, h') \<Rightarrow> (Inl e, h')
      | (Inr rep, h') \<Rightarrow> (Inr (acc @ (case rep of None \<Rightarrow> [] | Some r \<Rightarrow> [r])), h'))"
  by (simp add: ffa_step_def Let_def split: prod.splits sum.splits option.splits)

lemma ffa_fold_spec:
  "fold (ffa_step env teams ranks rr order) [k..<length order - 1] (Inr acc, h) =
     (case spec_pairwise env teams ranks rr (adjacent_pairs (drop k order)) h of
        (Inl e, h') \<Rightarrow> (Inl e, h')
      | (Inr reps, h') \<Rightarrow> (Inr (acc @ reps), h'))"
proof (induction "length order - 1 - k" arbitrary: k acc h)
  case 0
  then have "\<not> k < length order - 1" by simp
  then show ?case by (simp add: adjacent_pairs_short)
next
  case (Suc d)
  then have k: "k < length order - 1" by simp
  have d: "d = length order - 1 - Suc k" using Suc.hyps(2) by simp
  let ?R = "rate_two_teams env (teams ! (order ! k)) (teams ! (order ! Suc k))
              (ranks ! (order ! k) = ranks ! (order ! Suc k)) rr h"
  obtain res h1 where R: "?R = (res, h1)" by (cases ?R)
  have upt: "[k..<length order - 1] = k # [Suc k..<length order - 1]"
    using k by (simp add: upt_conv_Cons)
  show ?case
  proof (cases res)
    case (Inl e)
    then show ?thesis
      unfolding upt adjacent_pairs_drop [OF k]
      by (simp add: ffa_step_spec R ffa_fold_error)
  next
    case (Inr rep)
    show ?thesis
      unfolding upt adjacent_pairs_drop [OF k]
      using Suc.hyps(1) [OF d, of "acc @ (case rep of None \<Rightarrow> [] | Some r \<Rightarrow> [r])" h1]
      by (simp add: ffa_step_spec R Inr split: prod.splits sum.splits)
  qed
qed

lemma rate_ffa_spec:
  assumes "length teams = length ranks" and "2 < length teams"
  shows "rate env teams ranks rr h = spec_rate_ffa env teams ranks rr h"
  using assms ffa_fold_spec [of env teams ranks rr "rank_order ranks" 0 "[]"]
  by (simp add: rate_def spec_rate_ffa_def Let_def split: prod.splits sum.splits)


lemma rate_two_teams_name: "name (snd (rate_two_teams env ws ls d col h) p) = name (h p)"
  by (simp add: rate_two_teams_heap pair_loops_def ep_loop_name)

lemma apply_drift_name: "name (apply_drift env q h p) = name (h p)"
  by (simp add: apply_drift_def)

lemma drift_team_name: "name (fold (apply_drift env) team h p) = name (h p)"
  by (induction team arbitrary: h) (simp_all add: apply_drift_name)

lemma drift_all_name: "name (drift_all env teams h p) = name (h p)"
  unfolding drift_all_def
  by (induction teams arbitrary: h) (simp_all add: drift_team_name)

lemma rate_two_teams_collect:
  assumes "0 < c_squared env h ws ls"
  shows "\<exists>rep. rate_two_teams env ws ls d True h
           = (Inr (Some rep), snd (rate_two_teams env ws ls d True h)) \<and>
         rep_is_draw rep = d \<and> rep_team_winner rep = map (\<lambda>p. name (h p)) ws \<and>
         rep_team_loser rep = map (\<lambda>p. name (h p)) ls"
  using assms by (simp add: rate_two_teams_eq pair_loops_def ep_loop_name)

lemma spec_pairwise_reports:
  assumes "\<And>a b h. (a, b) \<in> set ps \<Longrightarrow> 0 < c_squared env h (teams ! a) (teams ! b)"
  shows "\<exists>reps h'. spec_pairwise env teams ranks True ps h = (Inr reps, h') \<and>
           length reps = length ps \<and>
           (\<forall>i<length ps.
              rep_is_draw (reps ! i) = (ranks ! fst (ps ! i) = ranks ! snd (ps ! i)) \<and>
              rep_team_winner (reps ! i) = map (\<lambda>p. name (h p)) (teams ! fst (ps ! i)) \<and>
              rep_team_loser (reps ! i) = map (\<lambda>p. name (h p)) (teams ! snd (ps ! i)))"
  using assms
proof (induction ps arbitrary: h)
  case Nil
  then show ?case by simp
next
  case (Cons ab ps)
  obtain a b where ab: "ab = (a, b)" by (cases ab)
  define h1 where
    "h1 = snd (rate_two_teams env (teams ! a) (teams ! b) (ranks ! a = ranks ! b) True h)"
  have names: "name (h1 p) = name (h p)" for p
    unfolding h1_def by (rule rate_two_teams_name)
  have "0 < c_squared env h (teams ! a) (teams ! b)" using Cons.prems [of a b h] ab by simp
  from rate_two_teams_collect [OF this, of "ranks ! a = ranks ! b", folded h1_def]
  obtain rep where rep: "rate_two_teams env (teams ! a) (teams ! b) (ranks ! a = ranks ! b) True h
        = (Inr (Some rep), h1)"
    and rd: "rep_is_draw rep = (ranks ! a = ranks ! b)"
    and rw: "rep_team_winner rep = map (\<lambda>p. name (h p)) (teams ! a)"
    and rl: "rep_team_loser rep = map (\<lambda>p. name (h p)) (teams ! b)"
    by blast
  have "\<And>a b h. (a, b) \<in> set ps \<Longrightarrow> 0 < c_squared env h (teams ! a) (teams ! b)"
    using Cons.prems by simp
  from Cons.IH [OF this, of h1]
  obtain reps h' where sp: "spec_pairwise env teams ranks True ps h1 = (Inr reps, h')"
    and len: "length reps = length ps"
    and each: "\<forall>i<length ps.
              rep_is_draw (reps ! i) = (ranks ! fst (ps ! i) = ranks ! snd (ps ! i)) \<and>
              rep_team_winner (reps ! i) = map (\<lambda>p. name (h1 p)) (teams ! fst (ps ! i)) \<and>
              rep_team_loser (reps ! i) = map (\<lambda>p. name (h1 p)) (teams ! snd (ps ! i))"
    by blast
  have run: "spec_pairwise env teams ranks True (ab # ps) h = (Inr (rep # reps), h')"
    by (simp add: ab rep sp)
  have "rep_is_draw ((rep # reps) ! i) = (ranks ! fst ((ab # ps) ! i) = ranks ! snd ((ab # ps) ! i)) \<and>
        rep_team_winner ((rep # reps) ! i) = map (\<lambda>p. name (h p)) (teams ! fst ((ab # ps) ! i)) \<and>
        rep_team_loser ((rep # reps) ! i) = map (\<lambda>p. name (h p)) (teams ! snd ((ab # ps) ! i))"
    if "i < length (ab # ps)" for i
  proof (cases i)
    case 0
    then show ?thesis using rd rw rl by (simp add: ab)
  next
    case (Suc j)
    then have "j < length ps" using that by simp
    then show ?thesis using each Suc by (simp add: names)
  qed
  then show ?case using run len by simp
qed


text \<open>
  C3: for a submission of \<open>N > 2\<close> teams with as many ranks, \<^verbatim>\<open>rate\<close> is the decomposition of
  the specification: the team indices sorted ascending by rank (a permutation of
  \<open>0, \<dots>, N - 1\<close>), its \<open>N - 1\<close> adjacent pairs updated in order, each with the better-ranked
  team as winner and \<open>is_draw\<close> true exactly when the two ranks are equal. When the
  submission is valid (no empty team, \<open>beta \<noteq> 0\<close>, \<open>trust \<ge> 0\<close>) and a report is requested,
  the call returns exactly \<open>N - 1\<close> reports, report \<open>i\<close> being that of the pair at positions
  \<open>i\<close> and \<open>i + 1\<close> of the sorted order.
\<close>

theorem ffa_decomposition:
  assumes "length teams = length ranks" and "2 < length teams"
  shows "set (rank_order ranks) = {0..<length teams} \<and> distinct (rank_order ranks) \<and>
         sorted (map (\<lambda>i. ranks ! i) (rank_order ranks)) \<and>
         length (adjacent_pairs (rank_order ranks)) = length teams - 1 \<and>
         rate env teams ranks return_report h = spec_rate_ffa env teams ranks return_report h \<and>
         ((\<forall>team\<in>set teams. team \<noteq> []) \<and> 0 \<le> trust env \<and> beta env \<noteq> 0 \<longrightarrow>
           (\<exists>reps h'. rate env teams ranks True h = (Inr (Some reps), h') \<and>
              length reps = length teams - 1 \<and>
              (\<forall>i<length teams - 1.
                 rep_is_draw (reps ! i)
                   = (ranks ! (rank_order ranks ! i) = ranks ! (rank_order ranks ! Suc i)) \<and>
                 ranks ! (rank_order ranks ! i) \<le> ranks ! (rank_order ranks ! Suc i) \<and>
                 rep_team_winner (reps ! i)
                   = map (\<lambda>p. name (h p)) (teams ! (rank_order ranks ! i)) \<and>
                 rep_team_loser (reps ! i)
                   = map (\<lambda>p. name (h p)) (teams ! (rank_order ranks ! Suc i)))))"
proof -
  define order where "order = rank_order ranks"
  define ps where "ps = adjacent_pairs order"
  have len: "length order = length teams" and set: "set order = {0..<length teams}"
    and dist: "distinct order"
    using assms(1) by (simp_all add: order_def rank_order_perm)
  have srt: "sorted (map (\<lambda>i. ranks ! i) order)"
    unfolding order_def by (rule rank_order_sorted)
  have plen: "length ps = length teams - 1"
    by (simp add: ps_def adjacent_pairs_length len)
  have spec: "rate env teams ranks rr h = spec_rate_ffa env teams ranks rr h" for rr
    using assms by (rule rate_ffa_spec)
  have valid: "\<exists>reps h'. rate env teams ranks True h = (Inr (Some reps), h') \<and>
              length reps = length teams - 1 \<and>
              (\<forall>i<length teams - 1.
                 rep_is_draw (reps ! i) = (ranks ! (order ! i) = ranks ! (order ! Suc i)) \<and>
                 ranks ! (order ! i) \<le> ranks ! (order ! Suc i) \<and>
                 rep_team_winner (reps ! i) = map (\<lambda>p. name (h p)) (teams ! (order ! i)) \<and>
                 rep_team_loser (reps ! i) = map (\<lambda>p. name (h p)) (teams ! (order ! Suc i)))"
    if ne: "\<forall>team\<in>set teams. team \<noteq> []" and tr: "0 \<le> trust env" and be: "beta env \<noteq> 0"
  proof -
    have pos: "0 < c_squared env h' (teams ! a) (teams ! b)" if "(a, b) \<in> set ps" for a b h'
    proof -
      from that have "a \<in> set order" unfolding ps_def adjacent_pairs_def by (rule set_zip_leftD)
      then have "a < length teams" using set by simp
      then have "teams ! a \<noteq> []" using ne by simp
      then show ?thesis using tr be by (intro c_squared_pos) simp_all
    qed
    from spec_pairwise_reports [of ps env teams ranks "drift_all env teams h", OF pos]
    obtain reps h' where
      run: "spec_pairwise env teams ranks True ps (drift_all env teams h) = (Inr reps, h')"
      and rlen: "length reps = length ps"
      and each: "\<forall>i<length ps.
        rep_is_draw (reps ! i) = (ranks ! fst (ps ! i) = ranks ! snd (ps ! i)) \<and>
        rep_team_winner (reps ! i)
          = map (\<lambda>p. name (drift_all env teams h p)) (teams ! fst (ps ! i)) \<and>
        rep_team_loser (reps ! i)
          = map (\<lambda>p. name (drift_all env teams h p)) (teams ! snd (ps ! i))"
      by blast
    have r: "rate env teams ranks True h = (Inr (Some reps), h')"
      unfolding spec spec_rate_ffa_def order_def [symmetric] ps_def [symmetric] run by simp
    have "rep_is_draw (reps ! i) = (ranks ! (order ! i) = ranks ! (order ! Suc i)) \<and>
          ranks ! (order ! i) \<le> ranks ! (order ! Suc i) \<and>
          rep_team_winner (reps ! i) = map (\<lambda>p. name (h p)) (teams ! (order ! i)) \<and>
          rep_team_loser (reps ! i) = map (\<lambda>p. name (h p)) (teams ! (order ! Suc i))"
      if i: "i < length teams - 1" for i
    proof -
      have nth: "ps ! i = (order ! i, order ! Suc i)"
        unfolding ps_def using i len by (intro adjacent_pairs_nth) simp
      have "map (\<lambda>i. ranks ! i) order ! i \<le> map (\<lambda>i. ranks ! i) order ! Suc i"
        using srt i len by (intro sorted_nth_mono) simp_all
      then have le: "ranks ! (order ! i) \<le> ranks ! (order ! Suc i)" using i len by simp
      show ?thesis using each i plen nth le by (simp add: drift_all_name)
    qed
    then show ?thesis using r rlen plen by simp
  qed
  show ?thesis
    using set dist srt plen spec valid
    unfolding order_def ps_def by blast
qed


lemma rank_order_012: "rank_order [0, 1, 2] = [0, 1, 2]"
proof -
  have "[0..<3] = [0, 1, 2]" by (simp add: upt_rec)
  then show ?thesis by (simp add: rank_order_def)
qed

theorem ffa_decomposition_witness:
  "length [[0::nat], [1], [2]] = length [0::int, 1, 2] \<and> 2 < length [[0::nat], [1], [2]] \<and>
   rank_order [0, 1, 2] = [0, 1, 2] \<and>
   adjacent_pairs (rank_order [0, 1, 2]) = [(0, 1), (1, 2)] \<and>
   0 \<le> trust default_env \<and> beta default_env \<noteq> 0 \<and>
   (\<exists>reps h'. rate default_env [[0], [1], [2]] [0, 1, 2] True
        (\<lambda>r. make_player default_env (if r = 0 then ''A'' else if r = 1 then ''B'' else ''C''))
        = (Inr (Some reps), h') \<and>
      length reps = 2 \<and> \<not> rep_is_draw (reps ! 0) \<and> \<not> rep_is_draw (reps ! 1) \<and>
      rep_team_winner (reps ! 0) = [''A''] \<and> rep_team_loser (reps ! 0) = [''B''] \<and>
      rep_team_winner (reps ! 1) = [''B''] \<and> rep_team_loser (reps ! 1) = [''C''])"
proof -
  let ?h = "\<lambda>r::nat. make_player default_env
      (if r = 0 then ''A'' else if r = 1 then ''B'' else ''C'')"
  let ?teams = "[[0::nat], [1], [2]]" and ?ranks = "[0::int, 1, 2]"
  have l1: "length ?teams = length ?ranks" and l2: "2 < length ?teams" by simp_all
  have tr: "0 \<le> trust default_env" and be: "beta default_env \<noteq> 0"
    by (simp_all add: default_env_def init_def)
  have ne: "\<forall>team\<in>set ?teams. team \<noteq> []" by simp
  have ap: "adjacent_pairs (rank_order [0, 1, 2]) = [(0, 1), (1, 2)]"
    by (simp add: rank_order_012 adjacent_pairs_def)
  from ffa_decomposition [OF l1 l2, of default_env True ?h] ne tr be
  obtain reps h' where r: "rate default_env ?teams ?ranks True ?h = (Inr (Some reps), h')"
    and len: "length reps = length ?teams - 1"
    and each: "\<forall>i<length ?teams - 1.
        rep_is_draw (reps ! i)
          = (?ranks ! (rank_order ?ranks ! i) = ?ranks ! (rank_order ?ranks ! Suc i)) \<and>
        ?ranks ! (rank_order ?ranks ! i) \<le> ?ranks ! (rank_order ?ranks ! Suc i) \<and>
        rep_team_winner (reps ! i) = map (\<lambda>p. name (?h p)) (?teams ! (rank_order ?ranks ! i)) \<and>
        rep_team_loser (reps ! i)
          = map (\<lambda>p. name (?h p)) (?teams ! (rank_order ?ranks ! Suc i))"
    by blast
  from each have e0: "\<not> rep_is_draw (reps ! 0) \<and> rep_team_winner (reps ! 0) = [''A''] \<and>
      rep_team_loser (reps ! 0) = [''B'']"
    by (simp add: rank_order_012 make_player_def)
  have "(1::nat) < length ?teams - 1" by simp
  with each have e1: "\<not> rep_is_draw (reps ! 1) \<and> rep_team_winner (reps ! 1) = [''B''] \<and>
      rep_team_loser (reps ! 1) = [''C'']"
    by (simp add: rank_order_012 make_player_def)
  from len have len2: "length reps = 2" by simp
  show ?thesis using l1 l2 rank_order_012 ap tr be r len2 e0 e1 by blast
qed

section \<open>The draw margin\<close>

lemma bisect_Suc:
  "bisect target (Suc n) (lo, hi) =
     bisect target n (if Phi ((lo + hi) / 2) < target then ((lo + hi) / 2, hi)
                      else (lo, (lo + hi) / 2))"
  by (simp add: Let_def)

lemma bisect_bounds:
  assumes "lo \<le> hi" and "bisect target n (lo, hi) = (lo', hi')"
  shows "lo \<le> lo' \<and> lo' \<le> hi' \<and> hi' \<le> hi"
  using assms
proof (induction n arbitrary: lo hi)
  case 0
  then show ?case by simp
next
  case (Suc n)
  let ?mid = "(lo + hi) / 2"
  have mid: "lo \<le> ?mid" "?mid \<le> hi" using Suc.prems(1) by simp_all
  show ?case
  proof (cases "Phi ?mid < target")
    case True
    then have "bisect target n (?mid, hi) = (lo', hi')" using Suc.prems(2) by simp
    from Suc.IH [OF mid(2) this] mid show ?thesis by simp
  next
    case False
    then have "bisect target n (lo, ?mid) = (lo', hi')" using Suc.prems(2) by simp
    from Suc.IH [OF mid(1) this] mid show ?thesis by simp
  qed
qed

text \<open>Two runs of the loop with targets \<open>T1 \<le> T2\<close> stay equal until they separate for good.\<close>

lemma bisect_mono:
  assumes "T1 \<le> T2" and "lo1 \<le> hi1" and "lo2 \<le> hi2"
    and "(lo1, hi1) = (lo2, hi2) \<or> hi1 \<le> lo2"
    and "bisect T1 n (lo1, hi1) = (a1, b1)" and "bisect T2 n (lo2, hi2) = (a2, b2)"
  shows "(a1, b1) = (a2, b2) \<or> b1 \<le> a2"
  using assms(2-)
proof (induction n arbitrary: lo1 hi1 lo2 hi2)
  case 0
  then show ?case by simp
next
  case (Suc n)
  let ?m1 = "(lo1 + hi1) / 2" and ?m2 = "(lo2 + hi2) / 2"
  define s1 where "s1 = (if Phi ?m1 < T1 then (?m1, hi1) else (lo1, ?m1))"
  define s2 where "s2 = (if Phi ?m2 < T2 then (?m2, hi2) else (lo2, ?m2))"
  have r1: "bisect T1 n s1 = (a1, b1)" using Suc.prems(4) by (simp only: bisect_Suc s1_def)
  have r2: "bisect T2 n s2 = (a2, b2)" using Suc.prems(5) by (simp only: bisect_Suc s2_def)
  have o1: "fst s1 \<le> snd s1" "snd s1 \<le> hi1" using Suc.prems(1) by (simp_all add: s1_def)
  have o2: "fst s2 \<le> snd s2" "lo2 \<le> fst s2" using Suc.prems(2) by (simp_all add: s2_def)
  have rel: "s1 = s2 \<or> snd s1 \<le> fst s2"
  proof (cases "hi1 \<le> lo2")
    case True
    then show ?thesis using o1(2) o2(2) by simp
  next
    case False
    then have same: "lo1 = lo2" "hi1 = hi2" using Suc.prems(3) by simp_all
    show ?thesis
      using \<open>T1 \<le> T2\<close> by (auto simp: s1_def s2_def same)
  qed
  show ?case
    using Suc.IH [of "fst s1" "snd s1" "fst s2" "snd s2"] o1(1) o2(1) rel r1 r2
    by (auto simp: prod_eq_iff)
qed

lemma draw_margin_mono:
  assumes "0 \<le> b" and "p \<le> q"
  shows "draw_margin b p \<le> draw_margin b q"
proof -
  obtain a1 b1 where r1: "bisect ((p + 1) / 2) 80 (- 10, 10) = (a1, b1)"
    by (cases "bisect ((p + 1) / 2) 80 (- 10, 10)")
  obtain a2 b2 where r2: "bisect ((q + 1) / 2) 80 (- 10, 10) = (a2, b2)"
    by (cases "bisect ((q + 1) / 2) 80 (- 10, 10)")
  have "(p + 1) / 2 \<le> (q + 1) / 2" using assms(2) by simp
  from bisect_mono [OF this _ _ _ r1 r2]
  have "(a1, b1) = (a2, b2) \<or> b1 \<le> a2" by simp
  moreover have "a1 \<le> b1" using bisect_bounds [OF _ r1] by simp
  moreover have "a2 \<le> b2" using bisect_bounds [OF _ r2] by simp
  ultimately have "(a1 + b1) / 2 \<le> (a2 + b2) / 2" by auto
  then have "(a1 + b1) / 2 * sqrt 2 * b \<le> (a2 + b2) / 2 * sqrt 2 * b"
    using assms(1) by (intro mult_right_mono) simp_all
  then show ?thesis by (simp add: draw_margin_def r1 r2)
qed

lemma bisect_half_below:
  "lo < 0 \<Longrightarrow> bisect (1 / 2) n (lo, 0) = (lo / 2 ^ n, 0)"
proof (induction n arbitrary: lo)
  case 0
  then show ?case by simp
next
  case (Suc n)
  have "Phi (lo / 2) < Phi 0" using Suc.prems by (intro Phi_strict_mono) simp
  then have "Phi (lo / 2) < 1 / 2" by (simp add: Phi_zero)
  moreover have "lo / 2 < 0" using Suc.prems by simp
  ultimately show ?case using Suc.IH [of "lo / 2"] by simp
qed

lemma draw_margin_zero: "draw_margin b 0 = - (10 / 2 ^ 80) * sqrt 2 * b"
proof -
  have e: "(80::nat) = Suc 79" by simp
  have "bisect (1 / 2) 80 (- 10, 10) = bisect (1 / 2) 79 (- 10, 0)"
    unfolding e by (subst bisect.simps(2)) (simp add: Phi_zero)
  also have "\<dots> = (- 10 / 2 ^ 79, 0)" by (rule bisect_half_below) simp
  finally have "bisect (1 / 2) 80 (- 10, 10) = (- 10 / 2 ^ 79, 0)" .
  then show ?thesis by (simp add: draw_margin_def)
qed


lemma erf_lower:
  assumes "0 \<le> x" and "x \<le> 1"
  shows "x / 3 \<le> erf x"
proof (cases "x = 0")
  case True
  then show ?thesis by (simp add: erf_zero)
next
  case False
  then have "0 < x" using assms(1) by simp
  then obtain z where z: "0 < z" "z < x"
    and eq: "erf x - erf 0 = (x - 0) * (2 / sqrt pi * exp (- (z\<^sup>2)))"
    using MVT2 [of 0 x erf "\<lambda>z. 2 / sqrt pi * exp (- (z\<^sup>2))"] erf_deriv by blast
  have "z\<^sup>2 \<le> 1" using z assms(2) by (simp add: power_le_one)
  then have "exp (- 1) \<le> exp (- (z\<^sup>2))" by simp
  moreover have "1 / 3 \<le> exp (- (1::real))"
    using exp_le by (simp add: exp_minus field_simps)
  ultimately have e: "1 / 3 \<le> exp (- (z\<^sup>2))" by linarith
  have "sqrt pi \<le> sqrt 4" using pi_less_4 by (intro real_sqrt_le_mono) simp
  then have "sqrt pi \<le> 2" by simp
  then have c: "1 \<le> 2 / sqrt pi" by (simp add: field_simps)
  have "1 * (1 / 3) \<le> 2 / sqrt pi * exp (- (z\<^sup>2))"
    using c e by (intro mult_mono) simp_all
  then have "x * (1 / 3) \<le> x * (2 / sqrt pi * exp (- (z\<^sup>2)))"
    using \<open>0 < x\<close> by (intro mult_left_mono) simp_all
  then show ?thesis using eq by (simp add: erf_zero)
qed

lemma Phi_mono: "x \<le> y \<Longrightarrow> Phi x \<le> Phi y"
  using Phi_strict_mono [of x y] by (cases "x = y") auto

lemma Phi_lower:
  assumes "0 \<le> t" and "t \<le> 1"
  shows "1 / 2 + t / 12 \<le> Phi t"
proof -
  define u where "u = t / sqrt 2"
  have s2: "1 \<le> sqrt 2" "sqrt 2 \<le> 2"
    using real_sqrt_le_mono [of 1 2] real_sqrt_le_mono [of 2 4] by simp_all
  have "t / 2 \<le> t / sqrt 2" using assms(1) s2 by (intro divide_left_mono) simp_all
  then have lo: "t / 2 \<le> u" by (simp only: u_def)
  have "t / sqrt 2 \<le> t / 1" using assms(1) s2 by (intro divide_left_mono) simp_all
  then have "u \<le> t" by (simp only: u_def div_by_1)
  then have hi: "u \<le> 1" using assms(2) by linarith
  have nn: "0 \<le> u" using assms(1) lo by linarith
  have "u / 3 \<le> erf u" using nn hi by (rule erf_lower)
  then have "t / 2 / 3 \<le> erf u" using lo by linarith
  then show ?thesis by (simp add: Phi_def SQRT2_def u_def)
qed

lemma bisect_half_above:
  assumes "0 < hi" and "target \<le> Phi (hi / 2 ^ n)"
  shows "bisect target n (0, hi) = (0, hi / 2 ^ n)"
  using assms
proof (induction n arbitrary: hi)
  case 0
  then show ?case by simp
next
  case (Suc n)
  have "(1::real) \<le> 2 ^ n" by simp
  then have "hi / 2 / 2 ^ n \<le> hi / 2 / 1" using Suc.prems(1) by (intro divide_left_mono) simp_all
  then have "hi / 2 ^ Suc n \<le> hi / 2" by simp
  then have "Phi (hi / 2 ^ Suc n) \<le> Phi (hi / 2)" by (rule Phi_mono)
  then have no: "\<not> Phi ((0 + hi) / 2) < target" using Suc.prems(2) by simp
  have "bisect target n (0, hi / 2) = (0, hi / 2 / 2 ^ n)"
    using Suc.prems by (intro Suc.IH) simp_all
  then show ?case unfolding bisect_Suc using no by simp
qed

lemma draw_margin_tiny:
  assumes "0 < p" and "p \<le> 2 / 10 ^ 30"
  shows "draw_margin b p = 10 / 2 ^ 80 * sqrt 2 * b"
proof -
  let ?T = "(p + 1) / 2"
  have e: "(80::nat) = Suc 79" by simp
  have "Phi ((- 10 + 10) / 2) < ?T" using assms(1) by (simp add: Phi_zero)
  then have "bisect ?T 80 (- 10, 10) = bisect ?T 79 (0, 10)"
    unfolding e bisect_Suc by simp
  moreover have "bisect ?T 79 (0, 10) = (0, 10 / 2 ^ 79)"
  proof (rule bisect_half_above)
    have "1 / 2 + (10 / 2 ^ 79) / 12 \<le> Phi (10 / 2 ^ 79)" by (rule Phi_lower) simp_all
    moreover have "?T \<le> 1 / 2 + (10 / 2 ^ 79) / 12" using assms(2) by simp
    ultimately show "?T \<le> Phi (10 / 2 ^ 79)" by linarith
  qed simp
  ultimately have "bisect ?T 80 (- 10, 10) = (0, 10 / 2 ^ 79)" by simp
  then show ?thesis by (simp add: draw_margin_def)
qed


text \<open>
  C7, as the code has it: for \<open>draw_probability = 0\<close> the 80 bisection steps leave a margin
  within \<open>|beta| \<cdot> 1e-15\<close> of zero, and for \<open>beta \<ge> 0\<close> the margin is non-decreasing in
  \<open>draw_probability\<close>.
\<close>

theorem draw_margin_calibration:
  "\<bar>draw_margin b 0\<bar> \<le> \<bar>b\<bar> / 10 ^ 15 \<and>
   (0 \<le> b \<and> p \<le> q \<longrightarrow> draw_margin b p \<le> draw_margin b q)"
proof (intro conjI impI)
  have z: "draw_margin b 0 = - (10 / 2 ^ 80) * sqrt 2 * b" by (rule draw_margin_zero)
  have "sqrt 2 \<le> sqrt 4" by (intro real_sqrt_le_mono) simp
  then have "sqrt 2 \<le> 2" by simp
  then have "10 / 2 ^ 80 * sqrt 2 \<le> 10 / 2 ^ 80 * 2" by (intro mult_left_mono) simp_all
  also have "\<dots> \<le> (1::real) / 10 ^ 15" by simp
  finally have "10 / 2 ^ 80 * sqrt 2 * \<bar>b\<bar> \<le> 1 / 10 ^ 15 * \<bar>b\<bar>"
    by (intro mult_right_mono) simp_all
  then show "\<bar>draw_margin b 0\<bar> \<le> \<bar>b\<bar> / 10 ^ 15"
    unfolding z by (simp add: abs_mult)
next
  assume "0 \<le> b \<and> p \<le> q"
  then show "draw_margin b p \<le> draw_margin b q" by (simp add: draw_margin_mono)
qed

theorem draw_margin_calibration_witness:
  "(0::real) \<le> 25 / 6 \<and> (1::real) / 10 \<le> 2 / 10 \<and>
   \<bar>draw_margin (25 / 6) 0\<bar> \<le> \<bar>25 / 6\<bar> / 10 ^ 15 \<and>
   draw_margin (25 / 6) (1 / 10) \<le> draw_margin (25 / 6) (2 / 10)"
proof -
  have h: "(0::real) \<le> 25 / 6" "(1::real) / 10 \<le> 2 / 10" by simp_all
  note T = draw_margin_calibration [of "25 / 6" "1 / 10" "2 / 10"]
  from T have 1: "\<bar>draw_margin (25 / 6) 0\<bar> \<le> \<bar>25 / 6\<bar> / 10 ^ 15"
    by (rule conjunct1)
  from T h have 2: "draw_margin (25 / 6) (1 / 10) \<le> draw_margin (25 / 6) (2 / 10)"
    by blast
  show ?thesis using h 1 2 by (intro conjI)
qed

text \<open>
  The margin is not strictly increasing: the loop can end at \<open>2^80\<close> midpoints only, and
  the draw probabilities \<open>1e-30\<close> and \<open>2e-30\<close> end at the same one, so that both give the
  same margin.
\<close>

theorem draw_margin_not_strict_counterexample:
  "(0::real) \<le> 1 / 10 ^ 30 \<and> (1::real) / 10 ^ 30 < 2 / 10 ^ 30 \<and> (2::real) / 10 ^ 30 < 1 \<and>
   draw_margin 1 (1 / 10 ^ 30) = draw_margin 1 (2 / 10 ^ 30)"
proof -
  have "draw_margin 1 (1 / 10 ^ 30) = 10 / 2 ^ 80 * sqrt 2 * 1"
    by (rule draw_margin_tiny) simp_all
  moreover have "draw_margin 1 (2 / 10 ^ 30) = 10 / 2 ^ 80 * sqrt 2 * 1"
    by (rule draw_margin_tiny) simp_all
  ultimately have "draw_margin 1 (1 / 10 ^ 30) = draw_margin 1 (2 / 10 ^ 30)" by simp
  then show ?thesis by simp
qed

section \<open>The limit of the error function\<close>

lemma sin_int_deriv: "(sin_int m has_real_derivative sin x ^ m) (at x)"
proof (induction m arbitrary: x rule: induct_nat_012)
  case 0
  have "sin_int 0 = (\<lambda>x. x)" by (rule ext) simp
  then show ?case by simp
next
  case 1
  have "sin_int (Suc 0) = (\<lambda>x. 1 - cos x)" by (rule ext) simp
  moreover have "((\<lambda>x. 1 - cos x) has_real_derivative sin x) (at x)"
    by (auto intro!: derivative_eq_intros)
  ultimately show ?case by simp
next
  case (ge2 m)
  have eq: "sin_int (Suc (Suc m)) =
      (\<lambda>x. (real (Suc m) * sin_int m x - sin x ^ Suc m * cos x) / real (Suc (Suc m)))"
    by (rule ext) simp
  have "((\<lambda>x. (real (Suc m) * sin_int m x - sin x ^ Suc m * cos x) / real (Suc (Suc m)))
      has_real_derivative
        (real (Suc m) * sin x ^ m
          - (real (Suc m) * sin x ^ m * cos x * cos x + sin x ^ Suc m * (- sin x)))
        / real (Suc (Suc m))) (at x)"
    by (rule derivative_eq_intros ge2.IH(1) refl | simp)+
  moreover have "(real (Suc m) * sin x ^ m
          - (real (Suc m) * sin x ^ m * cos x * cos x + sin x ^ Suc m * (- sin x)))
        / real (Suc (Suc m)) = sin x ^ Suc (Suc m)"
  proof -
    have c: "cos x * cos x = 1 - sin x * sin x"
      using sin_cos_squared_add [of x] by (simp add: power2_eq_square)
    have "real (Suc m) * sin x ^ m
          - (real (Suc m) * sin x ^ m * (cos x * cos x) + sin x ^ Suc m * (- sin x))
        = real (Suc (Suc m)) * sin x ^ Suc (Suc m)"
      unfolding c by (simp add: algebra_simps)
    then show ?thesis by (simp add: mult.assoc)
  qed
  ultimately show ?case unfolding eq by (simp only:)
qed

lemma sin_int_zero: "sin_int m 0 = 0"
  by (induction m rule: induct_nat_012) simp_all


lemma wallis_rec:
  "sin_int (Suc (Suc m)) (pi / 2) = real (Suc m) / real (Suc (Suc m)) * sin_int m (pi / 2)"
  by simp

lemma wallis_pos: "0 < sin_int m (pi / 2)"
proof (induction m rule: induct_nat_012)
  case (ge2 m)
  have "0 < real (Suc m) / real (Suc (Suc m)) * sin_int m (pi / 2)"
    using ge2.IH(1) by (intro mult_pos_pos divide_pos_pos) simp_all
  then show ?case by (simp only: wallis_rec)
qed simp_all

lemma wallis_prod: "real (Suc m) * sin_int m (pi / 2) * sin_int (Suc m) (pi / 2) = pi / 2"
proof (induction m)
  case 0
  show ?case by simp
next
  case (Suc m)
  have "real (Suc (Suc m)) * sin_int (Suc m) (pi / 2) * sin_int (Suc (Suc m)) (pi / 2)
      = real (Suc m) * sin_int m (pi / 2) * sin_int (Suc m) (pi / 2)"
    unfolding wallis_rec by (simp add: field_simps)
  from this Suc.IH show ?case by (rule trans)
qed

lemma wallis_mono: "sin_int (Suc m) (pi / 2) \<le> sin_int m (pi / 2)"
proof -
  define D where "D = (\<lambda>x. sin_int m x - sin_int (Suc m) x)"
  have der: "\<exists>y. (D has_real_derivative y) (at x) \<and> 0 \<le> y" if x: "0 \<le> x" "x \<le> pi / 2" for x
  proof -
    have s: "0 \<le> sin x" "sin x \<le> 1" using x by (simp_all add: sin_ge_zero)
    have "(D has_real_derivative sin x ^ m - sin x ^ Suc m) (at x)"
      unfolding D_def by (intro derivative_intros sin_int_deriv)
    moreover have "0 \<le> sin x ^ m * (1 - sin x)" using s by simp
    then have "0 \<le> sin x ^ m - sin x ^ Suc m" by (simp add: algebra_simps)
    ultimately show ?thesis by blast
  qed
  have "D 0 \<le> D (pi / 2)"
    by (rule DERIV_nonneg_imp_nondecreasing [of 0 "pi / 2" D]) (use der in auto)
  then show ?thesis by (simp add: D_def sin_int_zero)
qed

lemma wallis_lower: "pi / (4 * real (Suc n)) \<le> (sin_int (Suc (2 * n)) (pi / 2))\<^sup>2"
proof -
  let ?a = "sin_int (Suc (2 * n)) (pi / 2)" and ?b = "sin_int (Suc (Suc (2 * n))) (pi / 2)"
  have "?a * ?b \<le> ?a * ?a"
    using wallis_mono [of "Suc (2 * n)"] wallis_pos [of "Suc (2 * n)"]
    by (intro mult_left_mono) simp_all
  moreover have "real (Suc (Suc (2 * n))) * ?a * ?b = pi / 2" by (rule wallis_prod)
  then have "?a * ?b = pi / 2 / real (Suc (Suc (2 * n)))"
    by (simp add: field_simps)
  moreover have "pi / 2 / real (Suc (Suc (2 * n))) = pi / (4 * real (Suc n))" by simp
  ultimately show ?thesis by (simp add: power2_eq_square)
qed


lemma sin_power_le_exp:
  "sin x ^ (2 * n) \<le> exp (- (real n * (cos x)\<^sup>2))"
proof -
  have c: "(sin x)\<^sup>2 = 1 - (cos x)\<^sup>2" by (rule sin_squared_eq)
  have "1 + - ((cos x)\<^sup>2) \<le> exp (- ((cos x)\<^sup>2))" by (rule exp_ge_add_one_self)
  then have "(sin x)\<^sup>2 \<le> exp (- ((cos x)\<^sup>2))" unfolding c by simp
  then have "((sin x)\<^sup>2) ^ n \<le> exp (- ((cos x)\<^sup>2)) ^ n"
    by (intro power_mono) simp_all
  moreover have "exp (- ((cos x)\<^sup>2)) ^ n = exp (real n * - ((cos x)\<^sup>2))"
    by (rule exp_of_nat_mult [symmetric])
  ultimately show ?thesis by (simp add: power_mult)
qed

lemma erf_sqrt_wallis:
  "sqrt (real n) * sin_int (Suc (2 * n)) (pi / 2) \<le> sqrt pi / 2 * erf (sqrt (real n))"
proof -
  define r where "r = sqrt (real n)"
  define F where "F = (\<lambda>x. sqrt pi / 2 * erf (r * cos x) + r * sin_int (Suc (2 * n)) x)"
  have r: "0 \<le> r" "r\<^sup>2 = real n" by (simp_all add: r_def)
  have der: "\<exists>y. (F has_real_derivative y) (at x) \<and> y \<le> 0" if x: "0 \<le> x" "x \<le> pi / 2" for x
  proof -
    have s: "0 \<le> sin x" using x by (simp add: sin_ge_zero)
    have "(F has_real_derivative
        sqrt pi / 2 * ((2 / sqrt pi * exp (- ((r * cos x)\<^sup>2))) * (r * - sin x))
          + r * sin x ^ Suc (2 * n)) (at x)"
      unfolding F_def
      by (rule derivative_eq_intros DERIV_chain2 [OF erf_deriv] sin_int_deriv refl | simp)+
    moreover have "sqrt pi / 2 * ((2 / sqrt pi * exp (- ((r * cos x)\<^sup>2))) * (r * - sin x))
          + r * sin x ^ Suc (2 * n)
        = r * sin x * (sin x ^ (2 * n) - exp (- (real n * (cos x)\<^sup>2)))"
      by (simp add: r(2) algebra_simps)
    moreover have "r * sin x * (sin x ^ (2 * n) - exp (- (real n * (cos x)\<^sup>2))) \<le> 0"
      using r(1) s sin_power_le_exp [of x n] by (intro mult_nonneg_nonpos) simp_all
    ultimately show ?thesis by (metis (no_types))
  qed
  have "F (pi / 2) \<le> F 0"
    by (rule DERIV_nonpos_imp_nonincreasing [of 0 "pi / 2" F]) (use der in auto)
  then show ?thesis by (simp add: F_def erf_zero sin_int_zero r_def)
qed

lemma erf_sqrt_lower: "1 - 1 / real (Suc n) \<le> erf (sqrt (real n))"
proof (cases "1 \<le> erf (sqrt (real n))")
  case True
  have "1 - 1 / real (Suc n) \<le> 1" by simp
  then show ?thesis using True by linarith
next
  case False
  define e where "e = erf (sqrt (real n))"
  define W where "W = sin_int (Suc (2 * n)) (pi / 2)"
  have e0: "0 \<le> e" using erf_mono [of 0 "sqrt (real n)"] by (simp add: e_def erf_zero)
  have e1: "e < 1" using False by (simp add: e_def)
  have W: "0 < W" "pi / (4 * real (Suc n)) \<le> W\<^sup>2"
    unfolding W_def by (rule wallis_pos, rule wallis_lower)
  have le: "sqrt (real n) * W \<le> sqrt pi / 2 * e"
    unfolding W_def e_def by (rule erf_sqrt_wallis)
  have "0 \<le> sqrt (real n) * W" using W(1) by simp
  with le have "(sqrt (real n) * W)\<^sup>2 \<le> (sqrt pi / 2 * e)\<^sup>2" by (rule power_mono)
  then have "real n * W\<^sup>2 \<le> pi / 4 * e\<^sup>2"
    by (simp add: power_mult_distrib power_divide)
  moreover have "real n * (pi / (4 * real (Suc n))) \<le> real n * W\<^sup>2"
    using W(2) by (intro mult_left_mono) simp_all
  ultimately have "real n * (pi / (4 * real (Suc n))) \<le> pi / 4 * e\<^sup>2" by linarith
  moreover have "real n * (pi / (4 * real (Suc n))) = pi / 4 * (real n / real (Suc n))" by simp
  ultimately have "pi / 4 * (real n / real (Suc n)) \<le> pi / 4 * e\<^sup>2" by (simp only:)
  moreover have "0 < pi / 4" by simp
  ultimately have "real n / real (Suc n) \<le> e\<^sup>2" by (simp only: mult_le_cancel_left_pos)
  moreover have "e\<^sup>2 \<le> e" using e0 e1 by (simp add: power2_eq_square mult_left_le)
  moreover have "real n / real (Suc n) = 1 - 1 / real (Suc n)" by (simp add: field_simps)
  ultimately show ?thesis unfolding e_def by linarith
qed


lemma erf_tail_deriv:
  assumes "0 < y"
  shows "((\<lambda>y. exp (- (y\<^sup>2)) / y + sqrt pi * erf y) has_real_derivative
           - (exp (- (y\<^sup>2)) / y\<^sup>2)) (at y)"
proof -
  have "((\<lambda>y. exp (- (y\<^sup>2)) / y + sqrt pi * erf y) has_real_derivative
      (exp (- (y\<^sup>2)) * (- (2 * y)) * y - exp (- (y\<^sup>2)) * 1) / (y * y)
        + sqrt pi * (2 / sqrt pi * exp (- (y\<^sup>2)))) (at y)"
    using assms by (auto intro!: derivative_eq_intros erf_deriv)
  moreover have "(exp (- (y\<^sup>2)) * (- (2 * y)) * y - exp (- (y\<^sup>2)) * 1) / (y * y)
        + sqrt pi * (2 / sqrt pi * exp (- (y\<^sup>2))) = - (exp (- (y\<^sup>2)) / y\<^sup>2)"
    using assms by (simp add: field_simps power2_eq_square)
  ultimately show ?thesis by (simp only:)
qed

lemma erf_tail:
  assumes "0 < x"
  shows "sqrt pi * (1 - erf x) \<le> exp (- (x\<^sup>2)) / x"
proof (rule ccontr)
  define K where "K = (\<lambda>y. exp (- (y\<^sup>2)) / y + sqrt pi * erf y)"
  assume "\<not> ?thesis"
  then have d: "0 < sqrt pi - K x" by (simp add: K_def algebra_simps)
  obtain n :: nat where n: "max (x\<^sup>2) (sqrt pi / (sqrt pi - K x)) < real n"
    using reals_Archimedean2 by blast
  then have n1: "x\<^sup>2 < real n" and n2: "sqrt pi / (sqrt pi - K x) < real n" by simp_all
  have "sqrt (x\<^sup>2) \<le> sqrt (real n)" using n1 by (intro real_sqrt_le_mono) simp
  then have xn: "x \<le> sqrt (real n)" using assms by simp
  have "K (sqrt (real n)) \<le> K x"
  proof (rule DERIV_nonpos_imp_nonincreasing [of x "sqrt (real n)" K, OF xn])
    fix y assume "x \<le> y" "y \<le> sqrt (real n)"
    then have "0 < y" using assms by linarith
    then have "(K has_real_derivative - (exp (- (y\<^sup>2)) / y\<^sup>2)) (at y)"
      unfolding K_def by (rule erf_tail_deriv)
    moreover have "- (exp (- (y\<^sup>2)) / y\<^sup>2) \<le> 0" by simp
    ultimately show "\<exists>d. (K has_real_derivative d) (at y) \<and> d \<le> 0" by blast
  qed
  moreover have "sqrt pi * erf (sqrt (real n)) \<le> K (sqrt (real n))"
    by (simp add: K_def)
  moreover have "sqrt pi * (1 - 1 / real (Suc n)) \<le> sqrt pi * erf (sqrt (real n))"
    using erf_sqrt_lower [of n] by (intro mult_left_mono) simp_all
  ultimately have "sqrt pi * (1 - 1 / real (Suc n)) \<le> K x" by linarith
  then have "sqrt pi - K x \<le> sqrt pi / real (Suc n)" by (simp add: algebra_simps)
  then have "(sqrt pi - K x) * real (Suc n) \<le> sqrt pi" by (simp add: field_simps)
  moreover have "sqrt pi < (sqrt pi - K x) * real n"
    using n2 d by (simp add: field_simps)
  moreover have "(sqrt pi - K x) * real n \<le> (sqrt pi - K x) * real (Suc n)"
    using d by (intro mult_left_mono) simp_all
  ultimately show False by linarith
qed


lemma erf_odd: "erf (- x) = - erf x"
proof -
  have "erf_coeffs n * (- x) ^ n = - (erf_coeffs n * x ^ n)" for n
  proof (cases n)
    case 0
    then show ?thesis by simp
  next
    case (Suc m)
    show ?thesis
    proof (cases "even m")
      case True
      then have "(- x) ^ Suc m = - (x ^ Suc m)" by simp
      then show ?thesis unfolding Suc by (simp only: mult_minus_right)
    next
      case False
      then show ?thesis unfolding Suc by (simp add: gauss_coeffs_def)
    qed
  qed
  then have "erf (- x) = (\<Sum>n. - (erf_coeffs n * x ^ n))" by (simp only: erf_def)
  also have "\<dots> = - (\<Sum>n. erf_coeffs n * x ^ n)"
    by (rule suminf_minus) (rule erf_series_summable)
  finally show ?thesis by (simp only: erf_def)
qed

text \<open>The Mills ratio bound for the lower tail of the normal distribution.\<close>

lemma Phi_lower_tail:
  assumes "t < 0"
  shows "Phi t * (- t) \<le> phi t"
proof -
  define x where "x = - t / sqrt 2"
  have x: "0 < x" using assms by (simp add: x_def divide_neg_pos)
  have x2: "x\<^sup>2 = t * t / 2" by (simp add: x_def power2_eq_square)
  have tx: "- t = x * sqrt 2" by (simp add: x_def)
  have "t / sqrt 2 = - x" by (simp add: x_def)
  then have P: "Phi t = (1 - erf x) / 2" by (simp add: Phi_def SQRT2_def erf_odd)
  have e: "exp (- (x\<^sup>2)) = exp (- 0.5 * t * t)" unfolding x2 by simp
  have sp: "sqrt (2 * pi) = sqrt 2 * sqrt pi" by (rule real_sqrt_mult)
  have "sqrt pi * (1 - erf x) \<le> exp (- (x\<^sup>2)) / x" using x by (rule erf_tail)
  then have "sqrt pi * (1 - erf x) * x \<le> exp (- (x\<^sup>2))" using x by (simp add: field_simps)
  then have "(1 - erf x) / 2 * (x * sqrt 2) * (sqrt 2 * sqrt pi) \<le> exp (- (x\<^sup>2))"
    by (simp add: algebra_simps)
  then have "Phi t * (- t) * sqrt (2 * pi) \<le> exp (- 0.5 * t * t)"
    unfolding P tx sp e .
  then have "Phi t * (- t) \<le> exp (- 0.5 * t * t) / sqrt (2 * pi)"
    by (simp add: field_simps)
  then show ?thesis by (simp only: phi_def SQRT_2PI_def)
qed

lemma w_truncate_nonneg: "0 \<le> w_truncate t"
proof (cases "Phi t < 1 / 10 ^ 12")
  case True
  then show ?thesis by (simp add: w_truncate_def v_truncate_def)
next
  case False
  then have P: "0 < Phi t" by (simp add: not_less less_le_trans [of 0 "1 / 10 ^ 12"])
  have v: "v_truncate t = phi t / Phi t" using False by (simp add: v_truncate_def)
  have "0 \<le> phi t + t * Phi t"
  proof (cases "t < 0")
    case True
    then show ?thesis using Phi_lower_tail [of t] by (simp add: algebra_simps)
  next
    case False
    then have "0 \<le> t * Phi t" using P by simp
    then show ?thesis using phi_pos [of t] by linarith
  qed
  then have "0 \<le> (phi t + t * Phi t) / Phi t" using P by simp
  moreover have "(phi t + t * Phi t) / Phi t = phi t / Phi t + t"
    using P by (simp add: field_simps)
  ultimately have "0 \<le> phi t / Phi t + t" by simp
  moreover have "0 \<le> phi t / Phi t" using P phi_pos [of t] by simp
  ultimately have "0 \<le> phi t / Phi t * (phi t / Phi t + t)" by (rule mult_nonneg_nonneg [rotated])
  then show ?thesis by (simp add: w_truncate_def v)
qed

section \<open>Uncertainty after a win or loss\<close>

lemma ep_step_sigma_le:
  assumes "0 \<le> w" and "0 \<le> sigma (fst st q)"
    and "1 / 10 ^ 9 \<le> sigma (fst st q) * sigma (fst st q)"
  shows "sigma (fst (ep_step winner c v w p st) q) \<le> sigma (fst st q) \<and>
         0 \<le> sigma (fst (ep_step winner c v w p st) q) \<and>
         1 / 10 ^ 9 \<le> sigma (fst (ep_step winner c v w p st) q)
                          * sigma (fst (ep_step winner c v w p st) q)"
proof (cases "q = p")
  case False
  then show ?thesis using assms by (simp add: ep_step_other)
next
  case True
  define s2 where "s2 = sigma (fst st p) * sigma (fst st p)"
  define m where "m = max (1 / 10 ^ 9) (s2 * (1 - s2 / (c * c) * w))"
  have new: "sigma (fst (ep_step winner c v w p st) p) = sqrt m"
    by (simp add: ep_step_at m_def s2_def)
  have s2: "1 / 10 ^ 9 \<le> s2" "0 \<le> s2" using assms(3) True by (simp_all add: s2_def)
  have "0 \<le> s2 / (c * c) * w" using s2(2) assms(1) by simp
  then have "1 - s2 / (c * c) * w \<le> 1" by simp
  then have "s2 * (1 - s2 / (c * c) * w) \<le> s2 * 1" using s2(2) by (rule mult_left_mono)
  then have m: "m \<le> s2" "1 / 10 ^ 9 \<le> m" using s2(1) by (simp_all add: m_def)
  then have m0: "0 \<le> m" by (simp add: m_def le_max_iff_disj)
  have "sqrt m \<le> sqrt s2" using m(1) by simp
  moreover have "sqrt s2 = sigma (fst st p)" using assms(2) True by (simp add: s2_def)
  moreover have "sqrt m * sqrt m = m" using m0 by simp
  ultimately show ?thesis unfolding True new using m(2) m0 by simp
qed

lemma ep_loop_sigma_le:
  assumes "0 \<le> w" and "0 \<le> sigma (fst st q)"
    and "1 / 10 ^ 9 \<le> sigma (fst st q) * sigma (fst st q)"
  shows "sigma (fst (fold (ep_step winner c v w) team st) q) \<le> sigma (fst st q) \<and>
         0 \<le> sigma (fst (fold (ep_step winner c v w) team st) q) \<and>
         1 / 10 ^ 9 \<le> sigma (fst (fold (ep_step winner c v w) team st) q)
                          * sigma (fst (fold (ep_step winner c v w) team st) q)"
  using assms(2,3)
proof (induction team arbitrary: st)
  case Nil
  then show ?case by simp
next
  case (Cons p team)
  define st' where "st' = ep_step winner c v w p st"
  have S: "sigma (fst st' q) \<le> sigma (fst st q)" "0 \<le> sigma (fst st' q)"
    "1 / 10 ^ 9 \<le> sigma (fst st' q) * sigma (fst st' q)"
    unfolding st'_def using ep_step_sigma_le [OF assms(1) Cons.prems, of winner c v p] by simp_all
  have I: "sigma (fst (fold (ep_step winner c v w) team st') q) \<le> sigma (fst st' q)"
    "0 \<le> sigma (fst (fold (ep_step winner c v w) team st') q)"
    "1 / 10 ^ 9 \<le> sigma (fst (fold (ep_step winner c v w) team st') q)
                          * sigma (fst (fold (ep_step winner c v w) team st') q)"
    using Cons.IH [OF S(2,3)] by simp_all
  have "sigma (fst (fold (ep_step winner c v w) team st') q) \<le> sigma (fst st q)"
    using I(1) S(1) by linarith
  then show ?case using I(2,3) by (simp add: st'_def)
qed

lemma pair_loops_sigma_le:
  assumes "0 \<le> sigma (h q)" and "1 / 10 ^ 9 \<le> sigma (h q) * sigma (h q)"
  shows "sigma (fst (pair_loops env ws ls False h) q) \<le> sigma (h q)"
proof -
  define c v w where "c = pair_c env h ws ls" and "v = pair_v env h ws ls False"
    and "w = pair_w env h ws ls False"
  define sw where "sw = fold (ep_step True c v w) ws (h, [], [])"
  have w: "0 \<le> w" unfolding w_def pair_w_def by (simp add: w_truncate_nonneg)
  have 1: "sigma (fst sw q) \<le> sigma (h q) \<and> 0 \<le> sigma (fst sw q) \<and>
      1 / 10 ^ 9 \<le> sigma (fst sw q) * sigma (fst sw q)"
    unfolding sw_def using ep_loop_sigma_le [OF w, of "(h, [], [])" q True c v ws] assms by simp
  then have "sigma (fst (fold (ep_step False c v w) ls sw) q) \<le> sigma (fst sw q)"
    using ep_loop_sigma_le [OF w, of sw q False c v ls] by simp
  then have "sigma (fst (fold (ep_step False c v w) ls sw) q) \<le> sigma (h q)"
    using 1 by linarith
  then show ?thesis by (simp add: pair_loops_def sw_def c_def v_def w_def)
qed

text \<open>
  C1, as the code has it: a win/loss pairwise update that returns leaves the \<open>sigma\<close> of
  every player at most where it was, provided that \<open>sigma\<close> was non-negative (it is, after
  the drift) with \<open>sigma\<^sup>2\<close> at least the variance floor \<open>1e-9\<close>.
\<close>

theorem nondraw_update_sigma_nonincreasing:
  assumes "rate_two_teams env ws ls False collect h = (Inr rep, h')"
    and "0 \<le> sigma (h p)" and "1 / 10 ^ 9 \<le> sigma (h p) * sigma (h p)"
  shows "sigma (h' p) \<le> sigma (h p)"
proof -
  have "h' = fst (pair_loops env ws ls False h)"
    using assms(1) by (auto simp: rate_two_teams_eq split: if_splits)
  then show ?thesis using assms(2,3) by (simp add: pair_loops_sigma_le)
qed

theorem nondraw_update_sigma_nonincreasing_witness:
  "rate_two_teams default_env [0] [1] False False (\<lambda>_. make_player default_env ''A'')
     = (Inr None, snd (rate_two_teams default_env [0] [1] False False
                         (\<lambda>_. make_player default_env ''A''))) \<and>
   0 \<le> sigma (make_player default_env ''A'') \<and>
   (1::real) / 10 ^ 9 \<le> sigma (make_player default_env ''A'') * sigma (make_player default_env ''A'') \<and>
   sigma (snd (rate_two_teams default_env [0] [1] False False
                 (\<lambda>_. make_player default_env ''A'')) 0)
     \<le> sigma (make_player default_env ''A'') \<and>
   sigma (snd (rate_two_teams default_env [0] [1] False False
                 (\<lambda>_. make_player default_env ''A'')) 1)
     \<le> sigma (make_player default_env ''A'')"
proof -
  let ?h = "\<lambda>_::nat. make_player default_env ''A''"
  define h' where "h' = snd (rate_two_teams default_env [0] [1] False False ?h)"
  have r: "rate_two_teams default_env [0] [1] False False ?h = (Inr None, h')"
    unfolding h'_def
    by (simp add: rate_two_teams_eq c_squared_sum default_env_def init_def make_player_def)
  have s: "0 \<le> sigma (make_player default_env ''A'')"
    "(1::real) / 10 ^ 9 \<le> sigma (make_player default_env ''A'') * sigma (make_player default_env ''A'')"
    by (simp_all add: default_env_def init_def make_player_def)
  note T0 = nondraw_update_sigma_nonincreasing [where p = 0, OF r s]
  note T1 = nondraw_update_sigma_nonincreasing [where p = 1, OF r s]
  show ?thesis using r T0 T1 s unfolding h'_def by (intro conjI)
qed

text \<open>
  Below the floor the update raises \<open>sigma\<close>: with \<open>tau = 0\<close> and two fresh players of
  \<open>sigma0 = 1e-5\<close>, the drift leaves \<open>sigma = 1e-5\<close> and the win/loss update sets it to
  \<open>\<surd>1e-9\<close> or more.
\<close>

theorem nondraw_update_sigma_counterexample:
  "sigma (drift_all (init 25 (1 / 10 ^ 5) (25 / 6) 0 (1 / 10) 0) [[0], [1]]
            (\<lambda>_. make_player (init 25 (1 / 10 ^ 5) (25 / 6) 0 (1 / 10) 0) ''A'') 0)
     = 1 / 10 ^ 5 \<and>
   fst (rate (init 25 (1 / 10 ^ 5) (25 / 6) 0 (1 / 10) 0) [[0], [1]] [0, 1] False
          (\<lambda>_. make_player (init 25 (1 / 10 ^ 5) (25 / 6) 0 (1 / 10) 0) ''A'')) = Inr None \<and>
   1 / 10 ^ 5 <
     sigma (snd (rate (init 25 (1 / 10 ^ 5) (25 / 6) 0 (1 / 10) 0) [[0], [1]] [0, 1] False
                   (\<lambda>_. make_player (init 25 (1 / 10 ^ 5) (25 / 6) 0 (1 / 10) 0) ''A'')) 0)"
proof -
  define env where "env = init 25 (1 / 10 ^ 5) (25 / 6) 0 (1 / 10) 0"
  define h where "h = (\<lambda>_::nat. make_player env ''A'')"
  define h1 where "h1 = drift_all env [[0], [1]] h"
  have env: "tau env = 0" "trust env = 0" "beta env = 25 / 6" "sigma0 env = 1 / 10 ^ 5"
    by (simp_all add: env_def init_def)
  have "sigma (h1 0) = sqrt (sigma (h 0) * sigma (h 0) + tau env * tau env)"
    by (simp add: h1_def drift_pair)
  also have "\<dots> = sqrt ((1 / 10 ^ 5) * (1 / 10 ^ 5))"
    by (simp add: h_def make_player_def env)
  also have "\<dots> = 1 / 10 ^ 5" by (subst real_sqrt_abs2) simp
  finally have d: "sigma (h1 0) = 1 / 10 ^ 5" .
  have tr: "0 \<le> trust env" and be: "beta env \<noteq> 0" by (simp_all add: env)
  have pos: "0 < c_squared env h1 [0] [1]" using tr be by (rule c_squared_pos) simp
  define h2 where "h2 = snd (rate_two_teams env [0] [1] False False h1)"
  have R: "rate_two_teams env [0] [1] False False h1 = (Inr None, h2)"
    unfolding h2_def using pos by (simp add: rate_two_teams_eq)
  have "sqrt (1 / 10 ^ 9) \<le> sigma (h2 0)"
    by (rule rate_two_teams_floor [OF R]) simp
  moreover have "1 / 10 ^ 5 < sqrt ((1::real) / 10 ^ 9)"
    by (rule real_less_rsqrt) (simp add: power2_eq_square)
  ultimately have up: "1 / 10 ^ 5 < sigma (h2 0)" by linarith
  have rate: "rate env [[0], [1]] [0, 1] False h = (Inr None, h2)"
    using R unfolding rate_two Let_def h1_def [symmetric] by simp
  show ?thesis
    using d up rate unfolding env_def [symmetric] h_def [symmetric] h1_def [symmetric] by simp
qed

section \<open>The truncation moments at particular arguments\<close>

lemma Phi_far_tail: "Phi (- 10) < 1 / 10 ^ 12"
proof -
  have "(2::real) \<le> exp 1" using exp_ge_add_one_self [of 1] by simp
  then have "(2::real) ^ 50 \<le> exp 1 ^ 50" by (intro power_mono) simp_all
  moreover have "exp (1::real) ^ 50 = exp (of_nat 50 * 1)" by (rule exp_of_nat_mult [symmetric])
  ultimately have big: "(2::real) ^ 50 \<le> exp 50" by simp
  have "exp (- 50) = inverse (exp (50::real))" by (rule exp_minus)
  also have "\<dots> \<le> inverse (2 ^ 50)" using big by (intro le_imp_inverse_le) simp_all
  finally have small: "exp (- 50) \<le> 1 / (2::real) ^ 50" by (simp add: inverse_eq_divide)
  have "1 \<le> sqrt (2 * pi)"
    using pi_ge_two real_sqrt_ge_one [of "2 * pi"] by simp
  then have "exp (- 50) / sqrt (2 * pi) \<le> exp (- 50) / 1"
    by (intro divide_left_mono) simp_all
  then have "phi (- 10) \<le> exp (- 50)" by (simp add: phi_def SQRT_2PI_def)
  moreover have "Phi (- 10) * (- (- 10)) \<le> phi (- 10)" by (rule Phi_lower_tail) simp
  ultimately have "Phi (- 10) * 10 \<le> 1 / 2 ^ 50" using small by simp
  then show ?thesis by simp
qed

text \<open>
  Both branches of the win/loss moments occur: at \<open>t = 0\<close> the quotient \<open>\<phi>/\<Phi>\<close> is taken, at
  \<open>t = -10\<close> the guard \<open>\<Phi>(t) < 1e-12\<close> gives \<open>v = -t\<close> and \<open>w = 0\<close>; a draw margin of \<open>0\<close>
  makes the draw moments \<open>0\<close>.
\<close>

theorem truncation_moments_closed_forms_witness:
  "v_truncate 0 = 2 / sqrt (2 * pi) \<and> spec_v 0 = 2 / sqrt (2 * pi) \<and>
   w_truncate 0 = 2 / pi \<and> spec_w 0 = 2 / pi \<and>
   v_truncate (- 10) = 10 \<and> spec_v (- 10) = 10 \<and>
   w_truncate (- 10) = 0 \<and> spec_w (- 10) = 0 \<and>
   v_draw 3 0 = 0 \<and> spec_v_draw 3 0 = 0 \<and> w_draw 3 0 = 0 \<and> spec_w_draw 3 0 = 0"
proof -
  note T0 = truncation_moments_closed_forms [of 0 0]
  note T1 = truncation_moments_closed_forms [of "- 10" 0]
  note T2 = truncation_moments_closed_forms [of 3 0]
  have v10: "v_truncate (- 10) = 10" using Phi_far_tail by (simp add: v_truncate_def)
  have w10: "w_truncate (- 10) = 0" by (simp add: w_truncate_def v10)
  have d: "v_draw 3 0 = 0" "w_draw 3 0 = 0" by (simp_all add: v_draw_def w_draw_def)
  show ?thesis
    using T0 T1 T2 v_truncate_zero w_truncate_zero v10 w10 d by (simp only:)
qed

end
